theory Spec2Isabelle
  imports Main "HOL-Library.AList" "HOL-Library.Multiset"
begin

section \<open>JavaScript values and strings\<close>

text \<open>
  The transcript generator (\<^verbatim>\<open>src/components/transcript-generator.js\<close>) reads
  spreadsheet cells, which are JavaScript values. A string is a list of code units; the
  model keeps the code units below 256 (\<^typ>\<open>char\<close>), read as Latin-1. A number
  cell is an integer here, of a size that \<^verbatim>\<open>String\<close> prints in plain digits (the
  code only converts numbers to strings and tests them for zero). \<open>JObj s\<close> is any
  object (a Date cell, a rich-text cell): it is truthy and
  \<open>s\<close> is what \<^verbatim>\<open>String(obj)\<close> returns.
\<close>

datatype jsval = JUndefined | JNull | JBool bool | JNum int | JStr string | JObj string

definition truthy :: "jsval \<Rightarrow> bool" where
  "truthy v = (case v of JUndefined \<Rightarrow> False | JNull \<Rightarrow> False | JBool b \<Rightarrow> b
     | JNum n \<Rightarrow> n \<noteq> 0 | JStr s \<Rightarrow> s \<noteq> [] | JObj s \<Rightarrow> True)"

text \<open>\<^verbatim>\<open>value || ""\<close>\<close>

definition orEmpty :: "jsval \<Rightarrow> jsval" where
  "orEmpty v = (if truthy v then v else JStr [])"

fun digitsOf :: "nat \<Rightarrow> string" where
  "digitsOf n = (if n < 10 then [''0123456789'' ! n]
     else digitsOf (n div 10) @ [''0123456789'' ! (n mod 10)])"

declare digitsOf.simps [simp del]

definition intToString :: "int \<Rightarrow> string" where
  "intToString i = (if i < 0 then CHR ''-'' # digitsOf (nat (- i)) else digitsOf (nat i))"

text \<open>\<^verbatim>\<open>String(value)\<close>\<close>

definition toStringJS :: "jsval \<Rightarrow> string" where
  "toStringJS v = (case v of JUndefined \<Rightarrow> ''undefined'' | JNull \<Rightarrow> ''null''
     | JBool b \<Rightarrow> (if b then ''true'' else ''false'')
     | JNum n \<Rightarrow> intToString n | JStr s \<Rightarrow> s | JObj s \<Rightarrow> s)"

text \<open>
  White space as \<^verbatim>\<open>trim()\<close>, \<^verbatim>\<open>\s\<close> and \<^verbatim>\<open>parseInt\<close> see it (tab,
  line feed, vertical tab, form feed, carriage return, space, no-break space); the line
  terminators are the characters \<^verbatim>\<open>.\<close> does not match.
\<close>

definition isSpace :: "char \<Rightarrow> bool" where
  "isSpace c = (c \<in> set [CHR 0x09, CHR 0x0A, CHR 0x0B, CHR 0x0C, CHR 0x0D, CHR 0x20, CHR 0xA0])"

definition isLineTerminator :: "char \<Rightarrow> bool" where
  "isLineTerminator c = (c \<in> set [CHR 0x0A, CHR 0x0D])"

definition isDigit :: "char \<Rightarrow> bool" where
  "isDigit c = (c \<in> set ''0123456789'')"

definition trim :: "string \<Rightarrow> string" where
  "trim s = rev (dropWhile isSpace (rev (dropWhile isSpace s)))"

definition toLowerChar :: "char \<Rightarrow> char" where
  "toLowerChar c = (let n = (of_char c :: nat) in
     if (65 \<le> n \<and> n \<le> 90) \<or> (192 \<le> n \<and> n \<le> 222 \<and> n \<noteq> 215) then char_of (n + 32) else c)"

text \<open>
  The same function on the eight bits of a character (lowest bit first): a capital has
  bit 6 set and bit 5 clear, and its small letter sets bit 5. The evaluator uses this
  equation.
\<close>

lemma toLowerChar_bits [code]:
  "toLowerChar (Char b0 b1 b2 b3 b4 b5 b6 b7) =
     (if b6 \<and> \<not> b5 \<and>
         (if b7 then \<not> (b0 \<and> b1 \<and> b2 \<and> b4)
          else (b0 \<or> b1 \<or> b2 \<or> b3 \<or> b4) \<and> \<not> (b4 \<and> b3 \<and> (b2 \<or> b1 \<and> b0)))
      then Char b0 b1 b2 b3 b4 True b6 b7
      else Char b0 b1 b2 b3 b4 b5 b6 b7)"
  by (cases b0; cases b1; cases b2; cases b3; cases b4; cases b5; cases b6; cases b7;
      simp add: toLowerChar_def char_of_def bit_0)

definition toLowerCase :: "string \<Rightarrow> string" where
  "toLowerCase s = map toLowerChar s"

definition startsWith :: "string \<Rightarrow> string \<Rightarrow> bool" where
  "startsWith s p = (take (length p) s = p)"

definition digitVal :: "char \<Rightarrow> int" where
  "digitVal c = of_char c - 48"

definition strToInt :: "string \<Rightarrow> int" where
  "strToInt s = foldl (\<lambda>a c. 10 * a + digitVal c) 0 s"

text \<open>\<^verbatim>\<open>parseInt(s, 10)\<close>; \<open>None\<close> is NaN.\<close>

definition parseInt10 :: "string \<Rightarrow> int option" where
  "parseInt10 s =
     (let t = dropWhile isSpace s;
          neg = (take 1 t = ''-'');
          u = (if take 1 t = ''-'' \<or> take 1 t = ''+'' then drop 1 t else t);
          ds = takeWhile isDigit u
      in if ds = [] then None
         else Some ((if neg then - 1 else 1) * strToInt ds))"

section \<open>Regular expressions as backtracking matchers\<close>

text \<open>
  A regular expression of the source becomes a matcher in continuation-passing style:
  each piece consumes a prefix of the input and hands the rest to its continuation; a
  failing continuation makes a quantifier give characters back, as the JavaScript
  matcher does.
\<close>

fun rxBacktrack :: "nat \<Rightarrow> nat \<Rightarrow> (string \<Rightarrow> string \<Rightarrow> 'a option) \<Rightarrow> string \<Rightarrow> 'a option" where
  "rxBacktrack lo 0 k s = (if lo = 0 then k [] s else None)"
| "rxBacktrack lo (Suc n) k s =
     (if Suc n < lo then None
      else case k (take (Suc n) s) (drop (Suc n) s) of
             Some r \<Rightarrow> Some r
           | None \<Rightarrow> rxBacktrack lo n k s)"

text \<open>
  A greedy quantifier \<^verbatim>\<open>X{lo,hi}\<close> over a character class: the longest run first,
  then shorter ones down to \<open>lo\<close>. The continuation gets the matched text.
\<close>

definition rxGreedy ::
  "(char \<Rightarrow> bool) \<Rightarrow> nat \<Rightarrow> nat option \<Rightarrow> (string \<Rightarrow> string \<Rightarrow> 'a option) \<Rightarrow> string \<Rightarrow> 'a option" where
  "rxGreedy p lo hi k s =
     (let m = length (takeWhile p s);
          n = (case hi of None \<Rightarrow> m | Some h \<Rightarrow> min h m)
      in rxBacktrack lo n k s)"

text \<open>A literal under the \<^verbatim>\<open>i\<close> flag (the literals of the source are ASCII).\<close>

fun rxLitI :: "string \<Rightarrow> (string \<Rightarrow> 'a option) \<Rightarrow> string \<Rightarrow> 'a option" where
  "rxLitI [] k s = k s"
| "rxLitI (c # cs) k [] = None"
| "rxLitI (c # cs) k (d # ds) = (if toLowerChar d = toLowerChar c then rxLitI cs k ds else None)"

fun rxAltI :: "string list \<Rightarrow> (string \<Rightarrow> 'a option) \<Rightarrow> string \<Rightarrow> 'a option" where
  "rxAltI [] k s = None"
| "rxAltI (a # as) k s = (case rxLitI a k s of Some r \<Rightarrow> Some r | None \<Rightarrow> rxAltI as k s)"

text \<open>\<^verbatim>\<open>exec\<close> of an unanchored expression: the leftmost position that matches.\<close>

fun rxSearch :: "(string \<Rightarrow> 'a option) \<Rightarrow> string \<Rightarrow> 'a option" where
  "rxSearch m [] = m []"
| "rxSearch m (c # cs) = (case m (c # cs) of Some r \<Rightarrow> Some r | None \<Rightarrow> rxSearch m cs)"

section \<open>Field parser\<close>

text \<open>\<^verbatim>\<open>/^(\d+)\s+(.*)$/\<close>: the two groups of a match.\<close>

definition catNoRegex :: "string \<Rightarrow> (string \<times> string) option" where
  "catNoRegex =
     rxGreedy isDigit 1 None (\<lambda>d.
     rxGreedy isSpace 1 None (\<lambda>_.
     rxGreedy (\<lambda>c. \<not> isLineTerminator c) 0 None (\<lambda>rest s.
       if s = [] then Some (d, rest) else None)))"

definition splitCatNoAndCourse :: "jsval \<Rightarrow> string \<times> string" where
  "splitCatNoAndCourse v =
     (let strVal = trim (toStringJS (orEmpty v))
      in case catNoRegex strVal of
           Some (d, rest) \<Rightarrow> (d, rest)
         | None \<Rightarrow> ([], strVal))"

section \<open>Session classifier\<close>

datatype month = Jan | Feb | Mar | Apr | May | Jun | Jul | Aug | Sep | Oct | Nov | Dec

text \<open>\<^verbatim>\<open>date.toLocaleString("en-US", { month: "short" })\<close>\<close>

fun monthAbbr :: "month \<Rightarrow> string" where
  "monthAbbr Jan = ''Jan''" | "monthAbbr Feb = ''Feb''" | "monthAbbr Mar = ''Mar''"
| "monthAbbr Apr = ''Apr''" | "monthAbbr May = ''May''" | "monthAbbr Jun = ''Jun''"
| "monthAbbr Jul = ''Jul''" | "monthAbbr Aug = ''Aug''" | "monthAbbr Sep = ''Sep''"
| "monthAbbr Oct = ''Oct''" | "monthAbbr Nov = ''Nov''" | "monthAbbr Dec = ''Dec''"

record jsdate =
  dateMonth :: month
  fullYear :: int

text \<open>
  \<^verbatim>\<open>new Date(value)\<close>: \<open>None\<close> is an invalid date (\<^verbatim>\<open>getTime()\<close> is NaN).
  \<^verbatim>\<open>new Date(undefined)\<close> is invalid by the language standard. What every other
  value gives is the runtime's business (the parsing of a date string is
  implementation-defined, and month and year are read in the local time zone), so it is
  the parameter \<open>host\<close>.
\<close>

definition newDate :: "(jsval \<Rightarrow> jsdate option) \<Rightarrow> jsval \<Rightarrow> jsdate option" where
  "newDate host v = (case v of JUndefined \<Rightarrow> None | _ \<Rightarrow> host v)"

text \<open>\<^verbatim>\<open>str.slice(-2)\<close>\<close>

definition sliceLast2 :: "string \<Rightarrow> string" where
  "sliceLast2 s = drop (length s - 2) s"

definition formatSession :: "(jsval \<Rightarrow> jsdate option) \<Rightarrow> jsval \<Rightarrow> string" where
  "formatSession host v =
     (case newDate host v of
        None \<Rightarrow> toStringJS (orEmpty v)
      | Some date \<Rightarrow>
          (let abbr = monthAbbr (dateMonth date);
               twoDigitYear = sliceLast2 (intToString (fullYear date));
               semester = (if abbr \<in> set [''Jan'', ''Feb'', ''Mar'', ''Apr'', ''May'', ''Jun'']
                           then ''Sem II'' else ''Sem I'')
           in abbr @ ''-'' @ twoDigitYear @ '' '' @ semester))"

text \<open>
  \<^verbatim>\<open>/(Aug|Sep|Oct|Nov|Dec)-(\d{2,4})\s+Sem\s*I/i\<close> and
  \<^verbatim>\<open>/(Jan|Feb|Mar|Apr|May|Jun)-(\d{2,4})\s+Sem\s*II/i\<close>: the second group of the
  leftmost match. The same two expressions are \<^verbatim>\<open>leftRegex\<close> and
  \<^verbatim>\<open>rightRegex\<close> of the table builder.
\<close>

definition semRegex :: "string list \<Rightarrow> string \<Rightarrow> string \<Rightarrow> string option" where
  "semRegex months roman =
     rxSearch (rxAltI months (rxLitI ''-'' (
       rxGreedy isDigit 2 (Some 4) (\<lambda>yy.
       rxGreedy isSpace 1 None (\<lambda>_.
       rxLitI ''Sem'' (
       rxGreedy isSpace 0 None (\<lambda>_.
       rxLitI roman (\<lambda>_. Some yy))))))))"

definition semIRegex :: "string \<Rightarrow> string option" where
  "semIRegex = semRegex [''Aug'', ''Sep'', ''Oct'', ''Nov'', ''Dec''] ''I''"

definition semIIRegex :: "string \<Rightarrow> string option" where
  "semIIRegex = semRegex [''Jan'', ''Feb'', ''Mar'', ''Apr'', ''May'', ''Jun''] ''II''"

text \<open>
  What the two expressions denote, said without the matcher, to compare the matcher
  with: somewhere in the label stand a month of the list, a hyphen, two to four
  digits, at least one white space character, \<open>Sem\<close>, any white space and the
  Roman numeral, every literal in either case. \<open>yy\<close> is the text of the digits.
\<close>

definition sameIgnoringCase :: "string \<Rightarrow> string \<Rightarrow> bool" where
  "sameIgnoringCase a b = (toLowerCase a = toLowerCase b)"

definition semPattern :: "string list \<Rightarrow> string \<Rightarrow> string \<Rightarrow> string \<Rightarrow> bool" where
  "semPattern months roman yy l =
     (\<exists>pre mon hyphen ws1 sem ws2 num post m.
        l = pre @ mon @ hyphen @ yy @ ws1 @ sem @ ws2 @ num @ post \<and>
        m \<in> set months \<and> sameIgnoringCase mon m \<and> sameIgnoringCase hyphen ''-'' \<and>
        2 \<le> length yy \<and> length yy \<le> 4 \<and> list_all isDigit yy \<and>
        ws1 \<noteq> [] \<and> list_all isSpace ws1 \<and> sameIgnoringCase sem ''Sem'' \<and>
        list_all isSpace ws2 \<and> sameIgnoringCase num roman)"

definition semIPattern :: "string \<Rightarrow> string \<Rightarrow> bool" where
  "semIPattern = semPattern [''Aug'', ''Sep'', ''Oct'', ''Nov'', ''Dec''] ''I''"

definition semIIPattern :: "string \<Rightarrow> string \<Rightarrow> bool" where
  "semIIPattern = semPattern [''Jan'', ''Feb'', ''Mar'', ''Apr'', ''May'', ''Jun''] ''II''"

datatype semMatch = SemI | SemII

record yearInfo =
  year :: string
  matched :: "semMatch option"

definition getAcademicYear :: "string \<Rightarrow> yearInfo" where
  "getAcademicYear sessionLabel =
     (case semIRegex sessionLabel of
        Some y \<Rightarrow> \<lparr>year = y, matched = Some SemI\<rparr>
      | None \<Rightarrow>
         (case semIIRegex sessionLabel of
            Some y \<Rightarrow>
              \<lparr>year = (case parseInt10 y of None \<Rightarrow> ''NaN'' | Some n \<Rightarrow> intToString (n - 1)),
               matched = Some SemII\<rparr>
          | None \<Rightarrow> \<lparr>year = ''Unknown'', matched = None\<rparr>))"

section \<open>Rows and course records\<close>

text \<open>
  A row as \<^verbatim>\<open>worksheet.eachRow\<close> hands it over: its number and \<^verbatim>\<open>row.values\<close>
  (column \<open>n\<close> at index \<open>n\<close>; an index past the end reads \<^verbatim>\<open>undefined\<close>).
\<close>

definition cellAt :: "jsval list \<Rightarrow> nat \<Rightarrow> jsval" where
  "cellAt rowValues i = (if i < length rowValues then rowValues ! i else JUndefined)"

record item =
  sem :: jsval
  catAndCourse :: jsval
  grade :: jsval
  semHrs :: jsval

definition extractRows :: "(nat \<times> jsval list) list \<Rightarrow> item list" where
  "extractRows sheet =
     map (\<lambda>(rowNumber, rowValues).
            \<lparr>sem = orEmpty (cellAt rowValues 1), catAndCourse = orEmpty (cellAt rowValues 2),
             grade = orEmpty (cellAt rowValues 3), semHrs = orEmpty (cellAt rowValues 4)\<rparr>)
         (filter (\<lambda>(rowNumber, rowValues). 3 \<le> rowNumber) sheet)"

text \<open>The course-only fields kept in a bucket, and the processed row that extends them.\<close>

record course =
  Course :: string
  CatNo :: string
  Grade :: jsval
  SemHrs :: jsval

record prow = course +
  rawSem :: jsval
  Sem :: string

definition processItem :: "(jsval \<Rightarrow> jsdate option) \<Rightarrow> item \<Rightarrow> prow" where
  "processItem host it =
     (let formattedSem = formatSession host (sem it);
          (catNo, courseName) = splitCatNoAndCourse (catAndCourse it)
      in \<lparr>Course = courseName, CatNo = catNo, Grade = grade it, SemHrs = semHrs it,
          rawSem = sem it, Sem = formattedSem\<rparr>)"

definition courseOf :: "prow \<Rightarrow> course" where
  "courseOf row = \<lparr>Course = Course row, CatNo = CatNo row, Grade = Grade row, SemHrs = SemHrs row\<rparr>"

datatype columnKey = KCourse | KCatNo | KGrade | KSemHrs

fun field :: "columnKey \<Rightarrow> course \<Rightarrow> jsval" where
  "field KCourse r = JStr (Course r)"
| "field KCatNo r = JStr (CatNo r)"
| "field KGrade r = Grade r"
| "field KSemHrs r = SemHrs r"

text \<open>
  \<^verbatim>\<open>records.map((r) => String(r[columnKey] || "").trim()).filter(Boolean)\<close>: an empty
  line is dropped.
\<close>

definition getColumnLines :: "course list \<Rightarrow> columnKey \<Rightarrow> string list" where
  "getColumnLines records columnKey =
     filter (\<lambda>line. line \<noteq> [])
       (map (\<lambda>r. trim (toStringJS (orEmpty (field columnKey r)))) records)"

section \<open>JavaScript objects used as dictionaries\<close>

text \<open>
  An object literal \<^verbatim>\<open>{}\<close> is the list of its own properties in creation order.
  Reading a name it does not own falls through to \<^verbatim>\<open>Object.prototype\<close>, whose
  members are truthy and have no \<^verbatim>\<open>push\<close>. \<^verbatim>\<open>Object.keys\<close> and
  \<^verbatim>\<open>Object.entries\<close> list the array-index names first, in ascending numeric
  order, then the other names in creation order.
\<close>

datatype error = TypeError

definition objectPrototypeKeys :: "string list" where
  "objectPrototypeKeys =
     [''constructor'', ''__proto__'', ''hasOwnProperty'', ''isPrototypeOf'',
      ''propertyIsEnumerable'', ''toLocaleString'', ''toString'', ''valueOf'',
      ''__defineGetter__'', ''__defineSetter__'', ''__lookupGetter__'', ''__lookupSetter__'']"

definition isArrayIndex :: "string \<Rightarrow> bool" where
  "isArrayIndex s =
     (s \<noteq> [] \<and> list_all isDigit s \<and> (s = ''0'' \<or> take 1 s \<noteq> ''0'') \<and> strToInt s < 4294967295)"

definition objEntries :: "(string \<times> 'v) list \<Rightarrow> (string \<times> 'v) list" where
  "objEntries obj =
     sort_key (\<lambda>e. strToInt (fst e)) (filter (\<lambda>e. isArrayIndex (fst e)) obj)
     @ filter (\<lambda>e. \<not> isArrayIndex (fst e)) obj"

definition objKeys :: "(string \<times> 'v) list \<Rightarrow> string list" where
  "objKeys obj = map fst (objEntries obj)"

section \<open>Record grouper\<close>

text \<open>The fold of \<^verbatim>\<open>processed.forEach\<close> over its two variables.\<close>

record gstate =
  groupedData :: "(string \<times> course list) list"
  currentSessionKey :: "string option"

text \<open>\<^verbatim>\<open>String(row.rawSem || "").trim()\<close>\<close>

definition rawVal :: "prow \<Rightarrow> string" where
  "rawVal row = trim (toStringJS (orEmpty (rawSem row)))"

definition isTrulyBlankRow :: "prow \<Rightarrow> bool" where
  "isTrulyBlankRow row =
     (let courseVal = trim (toStringJS (orEmpty (JStr (Course row))));
          gradeVal = trim (toStringJS (orEmpty (Grade row)));
          hrsVal = trim (toStringJS (orEmpty (SemHrs row)))
      in rawVal row = [] \<and> courseVal = [] \<and> gradeVal = [] \<and> hrsVal = [])"

definition isFooterCourse :: "string \<Rightarrow> bool" where
  "isFooterCourse c =
     (let courseLower = trim (toLowerCase c)
      in startsWith courseLower ''total number of semester hours earned'' \<or>
         startsWith courseLower ''number of semester hours required for graduation'' \<or>
         startsWith courseLower ''cumulative grade point average'')"

text \<open>
  The key a non-blank row is filed under: \<^verbatim>\<open>row.Sem.trim()\<close> when the row has a
  session value, else the key carried over, and \<^verbatim>\<open>"NoSession"\<close> when that is
  \<^verbatim>\<open>null\<close> or empty.
\<close>

definition sessionKeyFor :: "prow \<Rightarrow> string option \<Rightarrow> string" where
  "sessionKeyFor row cur =
     (let k = (if rawVal row \<noteq> [] then Some (trim (Sem row)) else cur)
      in case k of None \<Rightarrow> ''NoSession'' | Some s \<Rightarrow> if s = [] then ''NoSession'' else s)"

text \<open>
  \<^verbatim>\<open>if (!groupedData[key]) groupedData[key] = []\<close>: nothing is created for a key the
  object owns (an array is truthy) or inherits.
\<close>

definition ensureBucket :: "string \<Rightarrow> (string \<times> course list) list \<Rightarrow> (string \<times> course list) list" where
  "ensureBucket key g =
     (if map_of g key = None \<and> key \<notin> set objectPrototypeKeys then g @ [(key, [])] else g)"

text \<open>
  One turn of the loop. \<^verbatim>\<open>groupedData[key].push(...)\<close> throws when the key is
  inherited, since the inherited value has no \<^verbatim>\<open>push\<close>.
\<close>

definition rowStep :: "prow \<Rightarrow> gstate \<Rightarrow> error + gstate" where
  "rowStep row st =
     (if isTrulyBlankRow row then Inr (st\<lparr>currentSessionKey := None\<rparr>)
      else
        let key = sessionKeyFor row (currentSessionKey st);
            g1 = ensureBucket key (groupedData st)
        in if isFooterCourse (Course row)
           then Inr \<lparr>groupedData = g1, currentSessionKey = Some key\<rparr>
           else (case map_of g1 key of
                   None \<Rightarrow> Inl TypeError
                 | Some bucket \<Rightarrow>
                     Inr \<lparr>groupedData = AList.update key (bucket @ [courseOf row]) g1,
                          currentSessionKey = Some key\<rparr>))"

fun groupRows :: "prow list \<Rightarrow> gstate \<Rightarrow> error + gstate" where
  "groupRows [] st = Inr st"
| "groupRows (row # rows) st =
     (case rowStep row st of Inl e \<Rightarrow> Inl e | Inr st' \<Rightarrow> groupRows rows st')"

text \<open>
  The keys the non-blank rows of a sequence are filed under, in order, starting from the
  pointer \<open>cur\<close>.
\<close>

fun filedUnder :: "prow list \<Rightarrow> string option \<Rightarrow> string list" where
  "filedUnder [] cur = []"
| "filedUnder (row # rows) cur =
     (if isTrulyBlankRow row then filedUnder rows None
      else sessionKeyFor row cur # filedUnder rows (Some (sessionKeyFor row cur)))"

definition groupAll :: "prow list \<Rightarrow> error + (string \<times> course list) list" where
  "groupAll processed =
     (case groupRows processed \<lparr>groupedData = [], currentSessionKey = None\<rparr> of
        Inl e \<Rightarrow> Inl e | Inr st \<Rightarrow> Inr (groupedData st))"

section \<open>Year pairer\<close>

text \<open>
  One turn of \<^verbatim>\<open>Object.entries(groupedData).forEach\<close>: the year's object is
  created when \<^verbatim>\<open>academicYears\<close> has none, and the bucket is stored in it under
  its label. (A year is a digit string, the decimal string of an integer, or
  \<open>"Unknown"\<close>, so it is never a name that \<^verbatim>\<open>Object.prototype\<close> holds.)
\<close>

definition addSession ::
  "(string \<times> (string \<times> course list) list) list \<Rightarrow> string \<times> course list
     \<Rightarrow> (string \<times> (string \<times> course list) list) list" where
  "addSession academicYears e =
     (let y = year (getAcademicYear (fst e));
          ay = (if map_of academicYears y = None then academicYears @ [(y, [])] else academicYears)
      in AList.map_entry y (AList.update (fst e) (snd e)) ay)"

definition buildAcademicYears ::
  "(string \<times> course list) list \<Rightarrow> (string \<times> (string \<times> course list) list) list" where
  "buildAcademicYears g = foldl addSession [] (objEntries g)"

text \<open>
  A year key that \<^verbatim>\<open>String(parseInt(y, 10))\<close> gives back (a key that is no number
  counts as well).
\<close>

definition canonicalYear :: "string \<Rightarrow> bool" where
  "canonicalYear y = (case parseInt10 y of None \<Rightarrow> True | Some n \<Rightarrow> intToString n = y)"

definition sortedYears :: "(string \<times> 'v) list \<Rightarrow> string list" where
  "sortedYears academicYears =
     (let allYearKeys = filter (\<lambda>y. y \<noteq> ''Unknown'') (objKeys academicYears);
          numericYears = sort (List.map_filter parseInt10 allYearKeys);
          leftoverYearKeys = filter (\<lambda>y. parseInt10 y = None) allYearKeys
      in map intToString numericYears @ leftoverYearKeys)"

type_synonym cell = "string list"
type_synonym tableRow = "cell list"

definition headerRow :: tableRow where
  "headerRow =
     [[''SESSION''], [''COURSE''], [''CAT. NO.''], [''GRADE''], [''SEM. HRS.''],
      [''SESSION''], [''COURSE''], [''CAT. NO.''], [''GRADE''], [''SEM. HRS.'']]"

definition blankRow :: tableRow where
  "blankRow = replicate 10 [[]]"

text \<open>\<^verbatim>\<open>keys.shift() || null\<close>\<close>

definition shifted :: "string list \<Rightarrow> string option" where
  "shifted ks = (case ks of [] \<Rightarrow> None | k # _ \<Rightarrow> if k = [] then None else Some k)"

text \<open>\<^verbatim>\<open>key ? sessionsObj[key] : []\<close>; a value that is no array makes \<^verbatim>\<open>getColumnLines\<close> throw.\<close>

definition coursesFor :: "(string \<times> course list) list \<Rightarrow> string option \<Rightarrow> error + course list" where
  "coursesFor sessionsObj key =
     (case key of
        None \<Rightarrow> Inr []
      | Some k \<Rightarrow> (case map_of sessionsObj k of None \<Rightarrow> Inl TypeError | Some cs \<Rightarrow> Inr cs))"

definition keyCell :: "string option \<Rightarrow> cell" where
  "keyCell key = [case key of None \<Rightarrow> [] | Some k \<Rightarrow> k]"

definition pairedRow :: "string option \<Rightarrow> course list \<Rightarrow> string option \<Rightarrow> course list \<Rightarrow> tableRow" where
  "pairedRow leftKey leftCourses rightKey rightCourses =
     [keyCell leftKey,
      getColumnLines leftCourses KCourse, getColumnLines leftCourses KCatNo,
      getColumnLines leftCourses KGrade, getColumnLines leftCourses KSemHrs,
      keyCell rightKey,
      getColumnLines rightCourses KCourse, getColumnLines rightCourses KCatNo,
      getColumnLines rightCourses KGrade, getColumnLines rightCourses KSemHrs]"

text \<open>
  The \<^verbatim>\<open>while (leftKeys.length > 0 || rightKeys.length > 0)\<close> loop: one paired row
  and one blank row per turn.
\<close>

function pairRows ::
  "(string \<times> course list) list \<Rightarrow> string list \<Rightarrow> string list \<Rightarrow> error + tableRow list" where
  "pairRows sessionsObj leftKeys rightKeys =
     (if leftKeys = [] \<and> rightKeys = [] then Inr []
      else
        let leftKey = shifted leftKeys; rightKey = shifted rightKeys
        in case coursesFor sessionsObj leftKey of
             Inl e \<Rightarrow> Inl e
           | Inr leftCourses \<Rightarrow>
              (case coursesFor sessionsObj rightKey of
                 Inl e \<Rightarrow> Inl e
               | Inr rightCourses \<Rightarrow>
                  (case pairRows sessionsObj (drop 1 leftKeys) (drop 1 rightKeys) of
                     Inl e \<Rightarrow> Inl e
                   | Inr rest \<Rightarrow>
                       Inr (pairedRow leftKey leftCourses rightKey rightCourses
                            # blankRow # rest))))"
  by pat_completeness auto
termination
  by (relation "measure (\<lambda>(so, ls, rs). length ls + length rs)") (auto simp: neq_Nil_conv)

declare pairRows.simps [simp del]

text \<open>
  The body of the \<^verbatim>\<open>for (const yearStr of sortedYears)\<close> loop: the rows of one
  year. \<^verbatim>\<open>Object.keys(sessionsObj)\<close> throws when the year is no key of
  \<^verbatim>\<open>academicYears\<close>.
\<close>

definition oneYearRows ::
  "(string \<times> (string \<times> course list) list) list \<Rightarrow> string \<Rightarrow> error + tableRow list" where
  "oneYearRows academicYears yearStr =
     (case map_of academicYears yearStr of
        None \<Rightarrow> Inl TypeError
      | Some sessionsObj \<Rightarrow>
         (let sessionLabels = objKeys sessionsObj;
              leftKeys = filter (\<lambda>s. semIRegex s \<noteq> None) sessionLabels;
              rightKeys = filter (\<lambda>s. semIIRegex s \<noteq> None) sessionLabels
          in pairRows sessionsObj leftKeys rightKeys))"

text \<open>The loop itself: the rows of the years, in the order of the list.\<close>

fun yearRows ::
  "(string \<times> (string \<times> course list) list) list \<Rightarrow> string list \<Rightarrow> error + tableRow list" where
  "yearRows academicYears [] = Inr []"
| "yearRows academicYears (yearStr # ys) =
     (case oneYearRows academicYears yearStr of
        Inl e \<Rightarrow> Inl e
      | Inr rows \<Rightarrow>
         (case yearRows academicYears ys of
            Inl e \<Rightarrow> Inl e
          | Inr rest \<Rightarrow> Inr (rows @ rest)))"

definition tableRows :: "(string \<times> course list) list \<Rightarrow> error + tableRow list" where
  "tableRows g =
     (let academicYears = buildAcademicYears g
      in case yearRows academicYears (sortedYears academicYears) of
           Inl e \<Rightarrow> Inl e
         | Inr rows \<Rightarrow> Inr (headerRow # rows))"

text \<open>The whole pipeline of \<^verbatim>\<open>handleGenerateTranscript\<close>, from the sheet to the table.\<close>

definition generateTable ::
  "(jsval \<Rightarrow> jsdate option) \<Rightarrow> (nat \<times> jsval list) list \<Rightarrow> error + tableRow list" where
  "generateTable host sheet =
     (case groupAll (map (processItem host) (extractRows sheet)) of
        Inl e \<Rightarrow> Inl e
      | Inr g \<Rightarrow> tableRows g)"

section \<open>Facts about the matchers\<close>

lemma orEmpty_JStr [simp]: "orEmpty (JStr s) = JStr s"
  by (simp add: orEmpty_def truthy_def)

lemma toStringJS_orEmpty: "toStringJS (orEmpty v) = (if truthy v then toStringJS v else [])"
  by (simp add: orEmpty_def toStringJS_def)

lemma rxBacktrack_SomeD:
  "rxBacktrack lo n k s = Some r \<Longrightarrow> \<exists>j. lo \<le> j \<and> j \<le> n \<and> k (take j s) (drop j s) = Some r"
proof (induction n)
  case 0
  then show ?case by (auto split: if_splits)
next
  case (Suc n)
  show ?case
  proof (cases "k (take (Suc n) s) (drop (Suc n) s)")
    case None
    with Suc.prems have "rxBacktrack lo n k s = Some r" by (auto split: if_splits)
    from Suc.IH[OF this] show ?thesis by (auto intro: le_SucI)
  next
    case (Some r')
    with Suc.prems have "r' = r" "\<not> Suc n < lo" by (auto split: if_splits)
    with Some show ?thesis by (intro exI[of _ "Suc n"]) auto
  qed
qed

lemma take_within_takeWhile:
  "j \<le> length (takeWhile p s) \<Longrightarrow> list_all p (take j s) \<and> length (take j s) = j"
proof -
  assume j: "j \<le> length (takeWhile p s)"
  have "take j (takeWhile p s) = take j (take (length (takeWhile p s)) s)"
    using takeWhile_eq_take[of p s] by simp
  also have "\<dots> = take j s" using j by (simp add: min_def)
  finally have eq: "take j s = take j (takeWhile p s)" by simp
  have "list_all p (takeWhile p s)" by (simp add: list_all_iff) (meson set_takeWhileD)
  then have "list_all p (take j (takeWhile p s))"
    by (auto simp: list_all_iff dest: in_set_takeD)
  with eq j show ?thesis by simp
qed

lemma rxGreedy_SomeD:
  assumes "rxGreedy p lo hi k s = Some r"
  shows "\<exists>j. lo \<le> j \<and> (case hi of None \<Rightarrow> True | Some h \<Rightarrow> j \<le> h) \<and> length (take j s) = j
            \<and> list_all p (take j s) \<and> k (take j s) (drop j s) = Some r"
proof -
  define n where "n = (case hi of None \<Rightarrow> length (takeWhile p s) | Some h \<Rightarrow> min h (length (takeWhile p s)))"
  from assms have "rxBacktrack lo n k s = Some r"
    by (simp add: rxGreedy_def n_def Let_def)
  from rxBacktrack_SomeD[OF this] obtain j where
    j: "lo \<le> j" "j \<le> n" "k (take j s) (drop j s) = Some r" by blast
  from j(2) have "j \<le> length (takeWhile p s)" and "case hi of None \<Rightarrow> True | Some h \<Rightarrow> j \<le> h"
    by (auto simp: n_def split: option.splits)
  with take_within_takeWhile[of j p s] j show ?thesis by blast
qed

lemma rxLitI_SomeD:
  "rxLitI l k s = Some r \<Longrightarrow>
     length l \<le> length s \<and> toLowerCase (take (length l) s) = toLowerCase l \<and> k (drop (length l) s) = Some r"
  by (induction l k s rule: rxLitI.induct) (auto simp: toLowerCase_def split: if_splits)

lemma rxAltI_SomeD: "rxAltI as k s = Some r \<Longrightarrow> \<exists>a\<in>set as. rxLitI a k s = Some r"
  by (induction as) (auto split: option.splits)

lemma rxSearch_SomeD: "rxSearch m s = Some r \<Longrightarrow> \<exists>i. i \<le> length s \<and> m (drop i s) = Some r"
proof (induction s)
  case Nil
  then show ?case by simp
next
  case (Cons c cs)
  show ?case
  proof (cases "m (c # cs)")
    case None
    with Cons.prems have "rxSearch m cs = Some r" by simp
    from Cons.IH[OF this] obtain i where "i \<le> length cs" "m (drop i cs) = Some r" by blast
    then show ?thesis by (intro exI[of _ "Suc i"]) simp
  next
    case (Some r')
    with Cons.prems show ?thesis by (intro exI[of _ 0]) simp
  qed
qed

lemma semRegex_capture:
  assumes "semRegex months roman l = Some y"
  shows "2 \<le> length y \<and> length y \<le> 4 \<and> list_all isDigit y"
proof -
  from assms obtain i where
    "rxAltI months (rxLitI ''-'' (
       rxGreedy isDigit 2 (Some 4) (\<lambda>yy.
       rxGreedy isSpace 1 None (\<lambda>_.
       rxLitI ''Sem'' (
       rxGreedy isSpace 0 None (\<lambda>_.
       rxLitI roman (\<lambda>_. Some yy))))))) (drop i l) = Some y"
    unfolding semRegex_def by (blast dest: rxSearch_SomeD)
  then obtain s1 where
    "rxGreedy isDigit 2 (Some 4) (\<lambda>yy.
       rxGreedy isSpace 1 None (\<lambda>_.
       rxLitI ''Sem'' (
       rxGreedy isSpace 0 None (\<lambda>_.
       rxLitI roman (\<lambda>_. Some yy))))) s1 = Some y"
    by (blast dest: rxAltI_SomeD rxLitI_SomeD)
  from rxGreedy_SomeD[OF this] obtain j where
    j: "2 \<le> j" "j \<le> 4" "length (take j s1) = j" "list_all isDigit (take j s1)" and
    k: "rxGreedy isSpace 1 None (\<lambda>_.
       rxLitI ''Sem'' (
       rxGreedy isSpace 0 None (\<lambda>_.
       rxLitI roman (\<lambda>_. Some (take j s1))))) (drop j s1) = Some y"
    by auto
  from rxGreedy_SomeD[OF k] obtain s2 where
    "rxLitI ''Sem'' (
       rxGreedy isSpace 0 None (\<lambda>_.
       rxLitI roman (\<lambda>_. Some (take j s1)))) s2 = Some y"
    by blast
  then obtain s3 where
    "rxGreedy isSpace 0 None (\<lambda>_. rxLitI roman (\<lambda>_. Some (take j s1))) s3 = Some y"
    by (blast dest: rxLitI_SomeD)
  from rxGreedy_SomeD[OF this] obtain s4 where
    "rxLitI roman (\<lambda>_. Some (take j s1)) s4 = Some y" by blast
  then have "y = take j s1" by (auto dest: rxLitI_SomeD)
  with j show ?thesis by simp
qed

lemma digits_not_space: "isDigit c \<Longrightarrow> \<not> isSpace c"
  by (auto simp: isDigit_def isSpace_def)

lemma parseInt10_digits:
  assumes "y \<noteq> []" "list_all isDigit y"
  shows "parseInt10 y = Some (strToInt y)"
proof -
  from assms obtain c cs where y: "y = c # cs" and c: "isDigit c" by (cases y) auto
  have 1: "dropWhile isSpace y = y" using y c by (simp add: digits_not_space)
  have 2: "take 1 y \<noteq> ''-''" "take 1 y \<noteq> ''+''" using y c by (auto simp: isDigit_def)
  have 3: "takeWhile isDigit y = y" using assms(2) by (simp add: list_all_iff)
  show ?thesis using assms(1) 2 by (simp add: parseInt10_def 1 3 Let_def)
qed

lemma getAcademicYear_SemII_year:
  assumes "semIIRegex l = Some y"
  shows "parseInt10 y = Some (strToInt y)"
proof -
  from assms have "2 \<le> length y \<and> length y \<le> 4 \<and> list_all isDigit y"
    unfolding semIIRegex_def by (rule semRegex_capture)
  then show ?thesis by (intro parseInt10_digits) auto
qed

text \<open>
  The expression of the field parser, in closed form: a quantifier that gives
  characters back never rescues a match here, so the outcome is decided by the longest
  run of digits, the longest run of white space after it, and the rest.
\<close>

lemma rxBacktrack_first:
  "lo \<le> n \<Longrightarrow> k (take n s) (drop n s) = Some r \<Longrightarrow> rxBacktrack lo n k s = Some r"
  by (cases n) auto

lemma rxBacktrack_none:
  "(\<And>j. lo \<le> j \<Longrightarrow> j \<le> n \<Longrightarrow> k (take j s) (drop j s) = None) \<Longrightarrow> rxBacktrack lo n k s = None"
  by (induction n) auto

lemma rxBacktrack_first_or_none:
  assumes "lo \<le> n"
    and "\<And>j. lo \<le> j \<Longrightarrow> j < n \<Longrightarrow> k (take j s) (drop j s) = None"
  shows "rxBacktrack lo n k s = k (take n s) (drop n s)"
proof (cases "k (take n s) (drop n s)")
  case None
  have "rxBacktrack lo n k s = None"
  proof (rule rxBacktrack_none)
    fix j assume "lo \<le> j" "j \<le> n"
    then show "k (take j s) (drop j s) = None"
      using None assms(2)[of j] by (cases "j = n") auto
  qed
  with None show ?thesis by simp
next
  case (Some r)
  with assms(1) show ?thesis by (simp add: rxBacktrack_first)
qed

lemma restOfLine:
  "rxGreedy (\<lambda>c. \<not> isLineTerminator c) 0 None (\<lambda>rest s. if s = [] then Some (d, rest) else None) t
     = (if list_all (\<lambda>c. \<not> isLineTerminator c) t then Some (d, t) else None)"
proof (cases "list_all (\<lambda>c. \<not> isLineTerminator c) t")
  case True
  then have tw: "takeWhile (\<lambda>c. \<not> isLineTerminator c) t = t" by (simp add: list_all_iff)
  have "rxBacktrack 0 (length t) (\<lambda>rest s. if s = [] then Some (d, rest) else None) t = Some (d, t)"
    by (rule rxBacktrack_first) simp_all
  with True show ?thesis by (simp add: rxGreedy_def tw)
next
  case False
  then have "takeWhile (\<lambda>c. \<not> isLineTerminator c) t \<noteq> t"
    by (metis list_all_iff set_takeWhileD)
  then have lt: "length (takeWhile (\<lambda>c. \<not> isLineTerminator c) t) < length t"
    by (metis length_takeWhile_le le_neq_implies_less takeWhile_eq_take take_all_iff order_refl)
  have "rxBacktrack 0 (length (takeWhile (\<lambda>c. \<not> isLineTerminator c) t))
          (\<lambda>rest s. if s = [] then Some (d, rest) else None) t = None"
    using lt by (intro rxBacktrack_none) auto
  with False show ?thesis by (simp add: rxGreedy_def)
qed

lemma spacesThenRest:
  "rxGreedy isSpace 1 None (\<lambda>_.
     rxGreedy (\<lambda>c. \<not> isLineTerminator c) 0 None (\<lambda>rest s. if s = [] then Some (d, rest) else None)) r
     = (if takeWhile isSpace r \<noteq> [] \<and> list_all (\<lambda>c. \<not> isLineTerminator c) (dropWhile isSpace r)
        then Some (d, dropWhile isSpace r) else None)"
proof -
  let ?n = "length (takeWhile isSpace r)"
  have td: "take ?n r = takeWhile isSpace r" "drop ?n r = dropWhile isSpace r"
    by (simp_all add: takeWhile_eq_take[symmetric] dropWhile_eq_drop[symmetric])
  show ?thesis
  proof (cases "takeWhile isSpace r = []")
    case True
    then show ?thesis by (simp add: rxGreedy_def)
  next
    case ne: False
    then have n1: "1 \<le> ?n" by (simp add: Suc_le_eq)
    show ?thesis
    proof (cases "list_all (\<lambda>c. \<not> isLineTerminator c) (dropWhile isSpace r)")
      case True
      with ne n1 show ?thesis
        unfolding rxGreedy_def[of isSpace] Let_def option.case restOfLine
        by (simp add: rxBacktrack_first td)
    next
      case False
      have "rxBacktrack 1 ?n (\<lambda>_ t. if list_all (\<lambda>c. \<not> isLineTerminator c) t then Some (d, t) else None) r = None"
      proof (rule rxBacktrack_none)
        fix j assume "1 \<le> j" "j \<le> ?n"
        then have "drop j r = drop j (takeWhile isSpace r) @ dropWhile isSpace r"
          by (metis drop_append takeWhile_dropWhile_id diff_is_0_eq drop0)
        with False show "(if list_all (\<lambda>c. \<not> isLineTerminator c) (drop j r) then Some (d, drop j r) else None) = None"
          by simp
      qed
      with False show ?thesis
        unfolding rxGreedy_def[of isSpace] Let_def option.case restOfLine by simp
    qed
  qed
qed

lemma catNoRegex_eq:
  "catNoRegex s =
     (if takeWhile isDigit s \<noteq> [] \<and> takeWhile isSpace (dropWhile isDigit s) \<noteq> [] \<and>
         list_all (\<lambda>c. \<not> isLineTerminator c) (dropWhile isSpace (dropWhile isDigit s))
      then Some (takeWhile isDigit s, dropWhile isSpace (dropWhile isDigit s)) else None)"
proof -
  let ?n = "length (takeWhile isDigit s)"
  let ?k = "\<lambda>d r. if takeWhile isSpace r \<noteq> [] \<and> list_all (\<lambda>c. \<not> isLineTerminator c) (dropWhile isSpace r)
        then Some (d, dropWhile isSpace r) else None"
  have td: "take ?n s = takeWhile isDigit s" "drop ?n s = dropWhile isDigit s"
    by (simp_all add: takeWhile_eq_take[symmetric] dropWhile_eq_drop[symmetric])
  have cat: "catNoRegex s = rxBacktrack 1 ?n ?k s"
    unfolding catNoRegex_def rxGreedy_def[of isDigit] Let_def option.case spacesThenRest ..
  show ?thesis
  proof (cases "takeWhile isDigit s = []")
    case True
    then show ?thesis by (simp add: cat)
  next
    case False
    then have n1: "1 \<le> ?n" by (simp add: Suc_le_eq)
    have "rxBacktrack 1 ?n ?k s = ?k (take ?n s) (drop ?n s)"
    proof (rule rxBacktrack_first_or_none[OF n1])
      fix j assume j: "1 \<le> j" "j < ?n"
      then have "s ! j \<in> set (takeWhile isDigit s)"
        by (metis nth_mem takeWhile_nth)
      then have dg: "isDigit (s ! j)" by (auto dest: set_takeWhileD)
      from j have "j < length s" using length_takeWhile_le[of isDigit s] by simp
      then have "drop j s = s ! j # drop (Suc j) s" by (simp add: Cons_nth_drop_Suc)
      with dg have "takeWhile isSpace (drop j s) = []" by (simp add: digits_not_space)
      then show "?k (take j s) (drop j s) = None" by simp
    qed
    with False show ?thesis by (simp add: cat td)
  qed
qed

text \<open>
  The matcher against the pattern it implements: a match found is an occurrence of the
  pattern, and where the pattern occurs a match is found.
\<close>

lemma rxLitI_split:
  "rxLitI lit k s = Some r \<Longrightarrow>
     \<exists>m rest. s = m @ rest \<and> sameIgnoringCase m lit \<and> k rest = Some r"
proof -
  assume a: "rxLitI lit k s = Some r"
  from rxLitI_SomeD[OF a] have
    "s = take (length lit) s @ drop (length lit) s"
    "sameIgnoringCase (take (length lit) s) lit" "k (drop (length lit) s) = Some r"
    by (simp_all add: sameIgnoringCase_def)
  then show ?thesis by blast
qed

lemma rxGreedy_split:
  assumes "rxGreedy p lo hi k s = Some r"
  shows "\<exists>m rest. s = m @ rest \<and> lo \<le> length m \<and> (case hi of None \<Rightarrow> True | Some h \<Rightarrow> length m \<le> h) \<and>
            list_all p m \<and> k m rest = Some r"
proof -
  from rxGreedy_SomeD[OF assms] obtain j where
    j: "lo \<le> j" "case hi of None \<Rightarrow> True | Some h \<Rightarrow> j \<le> h" "length (take j s) = j"
       "list_all p (take j s)" "k (take j s) (drop j s) = Some r" by blast
  have "s = take j s @ drop j s" by simp
  with j show ?thesis
    by (intro exI[of _ "take j s"] exI[of _ "drop j s"]) (auto split: option.splits)
qed

lemma rxSearch_split: "rxSearch m s = Some r \<Longrightarrow> \<exists>pre rest. s = pre @ rest \<and> m rest = Some r"
proof -
  assume "rxSearch m s = Some r"
  from rxSearch_SomeD[OF this] obtain i where "m (drop i s) = Some r" by blast
  moreover have "s = take i s @ drop i s" by simp
  ultimately show ?thesis by blast
qed

lemma semRegex_sound:
  assumes "semRegex months roman l = Some y"
  shows "semPattern months roman y l"
proof -
  from assms obtain pre s0 where l: "l = pre @ s0" and
    "rxAltI months (rxLitI ''-'' (
       rxGreedy isDigit 2 (Some 4) (\<lambda>yy.
       rxGreedy isSpace 1 None (\<lambda>_.
       rxLitI ''Sem'' (
       rxGreedy isSpace 0 None (\<lambda>_.
       rxLitI roman (\<lambda>_. Some yy))))))) s0 = Some y"
    unfolding semRegex_def by (blast dest: rxSearch_split)
  then obtain m where m: "m \<in> set months" and
    "rxLitI m (rxLitI ''-'' (
       rxGreedy isDigit 2 (Some 4) (\<lambda>yy.
       rxGreedy isSpace 1 None (\<lambda>_.
       rxLitI ''Sem'' (
       rxGreedy isSpace 0 None (\<lambda>_.
       rxLitI roman (\<lambda>_. Some yy))))))) s0 = Some y"
    by (blast dest: rxAltI_SomeD)
  then obtain mon s1 where s0: "s0 = mon @ s1" and mon: "sameIgnoringCase mon m" and
    "rxLitI ''-'' (
       rxGreedy isDigit 2 (Some 4) (\<lambda>yy.
       rxGreedy isSpace 1 None (\<lambda>_.
       rxLitI ''Sem'' (
       rxGreedy isSpace 0 None (\<lambda>_.
       rxLitI roman (\<lambda>_. Some yy)))))) s1 = Some y"
    by (blast dest: rxLitI_split)
  then obtain hy s2 where s1: "s1 = hy @ s2" and hy: "sameIgnoringCase hy ''-''" and
    "rxGreedy isDigit 2 (Some 4) (\<lambda>yy.
       rxGreedy isSpace 1 None (\<lambda>_.
       rxLitI ''Sem'' (
       rxGreedy isSpace 0 None (\<lambda>_.
       rxLitI roman (\<lambda>_. Some yy))))) s2 = Some y"
    by (blast dest: rxLitI_split)
  from rxGreedy_split[OF this(3)] obtain yy s3 where s2: "s2 = yy @ s3" and
    yy: "2 \<le> length yy" "length yy \<le> 4" "list_all isDigit yy" and
    k3: "rxGreedy isSpace 1 None (\<lambda>_.
       rxLitI ''Sem'' (
       rxGreedy isSpace 0 None (\<lambda>_.
       rxLitI roman (\<lambda>_. Some yy)))) s3 = Some y"
    by auto
  from rxGreedy_split[OF k3] obtain ws1 s4 where s3: "s3 = ws1 @ s4" and
    ws1: "1 \<le> length ws1" "list_all isSpace ws1" and
    k4: "rxLitI ''Sem'' (rxGreedy isSpace 0 None (\<lambda>_. rxLitI roman (\<lambda>_. Some yy))) s4 = Some y"
    by auto
  from rxLitI_split[OF k4] obtain sem s5 where s4: "s4 = sem @ s5" and
    sem: "sameIgnoringCase sem ''Sem''" and
    k5: "rxGreedy isSpace 0 None (\<lambda>_. rxLitI roman (\<lambda>_. Some yy)) s5 = Some y"
    by blast
  from rxGreedy_split[OF k5] obtain ws2 s6 where s5: "s5 = ws2 @ s6" and
    ws2: "list_all isSpace ws2" and
    k6: "rxLitI roman (\<lambda>_. Some yy) s6 = Some y"
    by auto
  from rxLitI_split[OF k6] obtain num post where s6: "s6 = num @ post" and
    num: "sameIgnoringCase num roman" and y: "yy = y"
    by auto
  have "l = pre @ mon @ hy @ y @ ws1 @ sem @ ws2 @ num @ post"
    using l s0 s1 s2 s3 s4 s5 s6 y by simp
  moreover from ws1(1) have "ws1 \<noteq> []" by auto
  ultimately show ?thesis
    unfolding semPattern_def using m mon hy yy y ws1(2) sem ws2 num by blast
qed

lemma rxBacktrack_complete:
  "lo \<le> j \<Longrightarrow> j \<le> n \<Longrightarrow> k (take j s) (drop j s) \<noteq> None \<Longrightarrow> rxBacktrack lo n k s \<noteq> None"
proof (induction n)
  case 0
  then show ?case by simp
next
  case (Suc n)
  show ?case
  proof (cases "j = Suc n")
    case True
    with Suc.prems show ?thesis by (auto split: option.splits)
  next
    case False
    with Suc.prems have "j \<le> n" by simp
    from Suc.IH[OF Suc.prems(1) this Suc.prems(3)] Suc.prems(1) \<open>j \<le> n\<close>
    show ?thesis by (auto split: option.splits)
  qed
qed

lemma rxGreedy_complete:
  assumes "lo \<le> length m" "case hi of None \<Rightarrow> True | Some h \<Rightarrow> length m \<le> h"
    "list_all p m" "k m rest \<noteq> None"
  shows "rxGreedy p lo hi k (m @ rest) \<noteq> None"
proof -
  from assms(3) have "takeWhile p (m @ rest) = m @ takeWhile p rest"
    by (simp add: list_all_iff takeWhile_append2)
  then have "length m \<le> length (takeWhile p (m @ rest))" by simp
  with assms(2) have
    "length m \<le> (case hi of None \<Rightarrow> length (takeWhile p (m @ rest))
                   | Some h \<Rightarrow> min h (length (takeWhile p (m @ rest))))"
    by (auto split: option.splits)
  moreover from assms(4) have "k (take (length m) (m @ rest)) (drop (length m) (m @ rest)) \<noteq> None"
    by simp
  ultimately show ?thesis
    unfolding rxGreedy_def Let_def using assms(1) by (intro rxBacktrack_complete[of lo "length m"])
qed

lemma rxLitI_complete: "sameIgnoringCase m lit \<Longrightarrow> rxLitI lit k (m @ rest) = k rest"
proof (induction lit arbitrary: m)
  case Nil
  then show ?case by (simp add: sameIgnoringCase_def toLowerCase_def)
next
  case (Cons c cs)
  from Cons.prems obtain d m' where m: "m = d # m'" "toLowerChar d = toLowerChar c"
      "sameIgnoringCase m' cs"
    by (cases m) (auto simp: sameIgnoringCase_def toLowerCase_def)
  from Cons.IH[OF m(3)] m(1,2) show ?case by simp
qed

lemma rxAltI_complete: "a \<in> set as \<Longrightarrow> rxLitI a k s \<noteq> None \<Longrightarrow> rxAltI as k s \<noteq> None"
  by (induction as) (auto split: option.splits)

lemma rxSearch_complete: "m rest \<noteq> None \<Longrightarrow> rxSearch m (pre @ rest) \<noteq> None"
proof (induction pre)
  case Nil
  then show ?case by (cases rest) (auto split: option.splits)
next
  case (Cons c pre)
  then show ?case by (auto split: option.splits)
qed

lemma semRegex_complete:
  assumes "semPattern months roman yy l"
  shows "semRegex months roman l \<noteq> None"
proof -
  from assms obtain pre mon hyphen ws1 sem ws2 num post m where
    l: "l = pre @ mon @ hyphen @ yy @ ws1 @ sem @ ws2 @ num @ post" and
    m: "m \<in> set months" "sameIgnoringCase mon m" and hy: "sameIgnoringCase hyphen ''-''" and
    yy: "2 \<le> length yy" "length yy \<le> 4" "list_all isDigit yy" and
    ws1: "ws1 \<noteq> []" "list_all isSpace ws1" and sem: "sameIgnoringCase sem ''Sem''" and
    ws2: "list_all isSpace ws2" and num: "sameIgnoringCase num roman"
    unfolding semPattern_def by blast
  have 1: "rxLitI roman (\<lambda>_. Some yy) (num @ post) \<noteq> None"
    by (simp add: rxLitI_complete[OF num])
  have 2: "rxGreedy isSpace 0 None (\<lambda>_. rxLitI roman (\<lambda>_. Some yy)) (ws2 @ num @ post) \<noteq> None"
    by (rule rxGreedy_complete) (use ws2 1 in simp_all)
  have 3: "rxLitI ''Sem'' (rxGreedy isSpace 0 None (\<lambda>_. rxLitI roman (\<lambda>_. Some yy)))
             (sem @ ws2 @ num @ post) \<noteq> None"
    using 2 by (simp add: rxLitI_complete[OF sem])
  have 4: "rxGreedy isSpace 1 None (\<lambda>_.
       rxLitI ''Sem'' (rxGreedy isSpace 0 None (\<lambda>_. rxLitI roman (\<lambda>_. Some yy))))
             (ws1 @ sem @ ws2 @ num @ post) \<noteq> None"
    by (rule rxGreedy_complete) (use ws1 3 in \<open>simp_all add: Suc_le_eq\<close>)
  have 5: "rxGreedy isDigit 2 (Some 4) (\<lambda>yy.
       rxGreedy isSpace 1 None (\<lambda>_.
       rxLitI ''Sem'' (rxGreedy isSpace 0 None (\<lambda>_. rxLitI roman (\<lambda>_. Some yy)))))
             (yy @ ws1 @ sem @ ws2 @ num @ post) \<noteq> None"
    by (rule rxGreedy_complete) (use yy 4 in simp_all)
  have 6: "rxLitI m (rxLitI ''-'' (rxGreedy isDigit 2 (Some 4) (\<lambda>yy.
       rxGreedy isSpace 1 None (\<lambda>_.
       rxLitI ''Sem'' (rxGreedy isSpace 0 None (\<lambda>_. rxLitI roman (\<lambda>_. Some yy)))))))
             (mon @ hyphen @ yy @ ws1 @ sem @ ws2 @ num @ post) \<noteq> None"
    using 5 by (simp add: rxLitI_complete[OF m(2)] rxLitI_complete[OF hy])
  from rxAltI_complete[OF m(1) 6] show ?thesis
    unfolding semRegex_def l by (rule rxSearch_complete)
qed

lemma semIRegex_iff: "semIRegex l \<noteq> None \<longleftrightarrow> (\<exists>yy. semIPattern yy l)"
  unfolding semIRegex_def semIPattern_def
  by (metis semRegex_sound semRegex_complete not_Some_eq)

lemma semIIRegex_iff: "semIIRegex l \<noteq> None \<longleftrightarrow> (\<exists>yy. semIIPattern yy l)"
  unfolding semIIRegex_def semIIPattern_def
  by (metis semRegex_sound semRegex_complete not_Some_eq)

section \<open>C1: the academic year of a session label\<close>

text \<open>
  C1 says that a label matching the first-half pattern gets \<open>year = YY\<close> and half I,
  that a label matching the second-half pattern gets \<open>year = YY - 1\<close> and half II, and
  that a label matching neither gets \<open>year = "Unknown"\<close> and no half. The patterns
  are the two regular expressions of \<^verbatim>\<open>getAcademicYear\<close>, which search the label
  (they are not anchored) and ignore case.

  As stated the second case fails: \<^verbatim>\<open>getAcademicYear\<close> tests the first-half
  expression first, so a label in which both expressions find a match is classified as
  a first half. The label below matches the second-half expression with \<open>YY = 19\<close>,
  and the result is year 19, half I, not year 18, half II.
\<close>

theorem getAcademicYear_both_patterns_counterexample:
  "semIIRegex ''Jan-19 Sem II, Aug-19 Sem I'' = Some ''19'' \<and>
   getAcademicYear ''Jan-19 Sem II, Aug-19 Sem I'' = \<lparr>year = ''19'', matched = Some SemI\<rparr>"
  by code_simp

text \<open>
  C1, amended: the first-half expression is tested first. If it matches, the year is
  the digits \<open>YY\<close> of its leftmost match and the half is I. Otherwise, if the
  second-half expression matches, the year is the decimal string of \<open>YY - 1\<close> and the
  half is II. If neither matches, the year is \<open>"Unknown"\<close> and there is no half. An
  expression matches exactly when its pattern occurs in the label, and the digits it
  returns are the digits of an occurrence. The two examples of the specification hold.
\<close>

theorem getAcademicYear_first_match:
  "(semIRegex l \<noteq> None \<longleftrightarrow> (\<exists>yy. semIPattern yy l)) \<and>
   (semIIRegex l \<noteq> None \<longleftrightarrow> (\<exists>yy. semIIPattern yy l)) \<and>
   (semIRegex l = Some y \<longrightarrow>
      semIPattern y l \<and> getAcademicYear l = \<lparr>year = y, matched = Some SemI\<rparr>) \<and>
   (semIRegex l = None \<and> semIIRegex l = Some y \<longrightarrow>
      semIIPattern y l \<and>
      getAcademicYear l = \<lparr>year = intToString (strToInt y - 1), matched = Some SemII\<rparr>) \<and>
   (semIRegex l = None \<and> semIIRegex l = None \<longrightarrow>
      getAcademicYear l = \<lparr>year = ''Unknown'', matched = None\<rparr>) \<and>
   getAcademicYear ''Aug-18 Sem I'' = \<lparr>year = ''18'', matched = Some SemI\<rparr> \<and>
   getAcademicYear ''Jan-18 Sem II'' = \<lparr>year = ''17'', matched = Some SemII\<rparr>"
proof -
  have a: "getAcademicYear ''Aug-18 Sem I'' = \<lparr>year = ''18'', matched = Some SemI\<rparr>"
    by code_simp
  have b: "getAcademicYear ''Jan-18 Sem II'' = \<lparr>year = ''17'', matched = Some SemII\<rparr>"
    by code_simp
  have c: "semIRegex l = None \<and> semIIRegex l = Some y \<longrightarrow>
      getAcademicYear l = \<lparr>year = intToString (strToInt y - 1), matched = Some SemII\<rparr>"
    by (auto simp: getAcademicYear_def dest: getAcademicYear_SemII_year)
  have d: "semIRegex l = Some y \<longrightarrow> semIPattern y l"
    unfolding semIRegex_def semIPattern_def by (simp add: semRegex_sound)
  have e: "semIIRegex l = Some y \<longrightarrow> semIIPattern y l"
    unfolding semIIRegex_def semIIPattern_def by (simp add: semRegex_sound)
  have f: "semIRegex l = Some y \<longrightarrow> getAcademicYear l = \<lparr>year = y, matched = Some SemI\<rparr>"
    by (simp add: getAcademicYear_def)
  have g: "semIRegex l = None \<and> semIIRegex l = None \<longrightarrow>
      getAcademicYear l = \<lparr>year = ''Unknown'', matched = None\<rparr>"
    by (simp add: getAcademicYear_def)
  from semIRegex_iff[of l] semIIRegex_iff[of l] a b c d e f g show ?thesis by blast
qed

theorem getAcademicYear_first_match_witness:
  "semIRegex ''Sep-2019  sem i'' = Some ''2019'' \<and>
   semIPattern ''2019'' ''Sep-2019  sem i'' \<and>
   getAcademicYear ''Sep-2019  sem i'' = \<lparr>year = ''2019'', matched = Some SemI\<rparr> \<and>
   semIRegex ''May-08 Sem II'' = None \<and> semIIRegex ''May-08 Sem II'' = Some ''08'' \<and>
   semIIPattern ''08'' ''May-08 Sem II'' \<and>
   getAcademicYear ''May-08 Sem II'' = \<lparr>year = ''7'', matched = Some SemII\<rparr> \<and>
   semIRegex ''NoSession'' = None \<and> semIIRegex ''NoSession'' = None \<and>
   \<not> (\<exists>yy. semIPattern yy ''NoSession'') \<and> \<not> (\<exists>yy. semIIPattern yy ''NoSession'') \<and>
   getAcademicYear ''NoSession'' = \<lparr>year = ''Unknown'', matched = None\<rparr>"
proof -
  have 1: "semIRegex ''Sep-2019  sem i'' = Some ''2019''" by code_simp
  have 2: "semIRegex ''May-08 Sem II'' = None" by code_simp
  have 3: "semIIRegex ''May-08 Sem II'' = Some ''08''" by code_simp
  have 4: "semIRegex ''NoSession'' = None" by code_simp
  have 5: "semIIRegex ''NoSession'' = None" by code_simp
  have 6: "intToString (strToInt ''08'' - 1) = ''7''" by code_simp
  show ?thesis
    using getAcademicYear_first_match[of "''Sep-2019  sem i''" "''2019''"]
      getAcademicYear_first_match[of "''May-08 Sem II''" "''08''"]
      getAcademicYear_first_match[of "''NoSession''" "''x''"]
      1 2 3 4 5 6
    by simp
qed

section \<open>C2: the lines of a cell group\<close>

text \<open>
  C2 says that a bucket of \<open>N\<close> course records gives exactly \<open>N\<close> lines in the
  course column and in each of the category-number, grade and hours columns, line \<open>i\<close>
  coming from record \<open>i\<close>. The comment of \<^verbatim>\<open>getColumnLines\<close> promises the same
  (one string for each record), but the function drops every empty line. A course without
  a category number (\<^verbatim>\<open>splitCatNoAndCourse("Chapel")\<close> has none) followed by a course
  with one gives two course lines and a single category line, which then stands beside
  the wrong course.
\<close>

theorem getColumnLines_drops_empty_lines:
  "splitCatNoAndCourse (JStr ''Chapel'') = ([], ''Chapel'') \<and>
   getColumnLines
     [\<lparr>Course = ''Chapel'', CatNo = [], Grade = JStr ''P'', SemHrs = JNum 1\<rparr>,
      \<lparr>Course = ''Theology'', CatNo = ''101'', Grade = JStr ''A'', SemHrs = JNum 3\<rparr>] KCourse
     = [''Chapel'', ''Theology''] \<and>
   getColumnLines
     [\<lparr>Course = ''Chapel'', CatNo = [], Grade = JStr ''P'', SemHrs = JNum 1\<rparr>,
      \<lparr>Course = ''Theology'', CatNo = ''101'', Grade = JStr ''A'', SemHrs = JNum 3\<rparr>] KCatNo
     = [''101'']"
  by code_simp

section \<open>Facts about the record grouper\<close>

lemma rowStep_blank:
  "isTrulyBlankRow row \<Longrightarrow> rowStep row st = Inr (st\<lparr>currentSessionKey := None\<rparr>)"
  by (simp add: rowStep_def)

lemma map_of_ensureBucket:
  "map_of (ensureBucket key g) k =
     (if k = key \<and> map_of g key = None \<and> key \<notin> set objectPrototypeKeys then Some []
      else map_of g k)"
  by (auto simp: ensureBucket_def map_add_def split: option.splits)

lemma set_ensureBucket: "set (ensureBucket key g) \<subseteq> insert (key, []) (set g)"
  by (auto simp: ensureBucket_def)

lemma rowStep_nonblank:
  "\<not> isTrulyBlankRow row \<Longrightarrow>
   rowStep row st =
     (if isFooterCourse (Course row)
      then Inr \<lparr>groupedData = ensureBucket (sessionKeyFor row (currentSessionKey st)) (groupedData st),
                currentSessionKey = Some (sessionKeyFor row (currentSessionKey st))\<rparr>
      else (case map_of (ensureBucket (sessionKeyFor row (currentSessionKey st)) (groupedData st))
                   (sessionKeyFor row (currentSessionKey st)) of
              None \<Rightarrow> Inl TypeError
            | Some bucket \<Rightarrow>
                Inr \<lparr>groupedData =
                       AList.update (sessionKeyFor row (currentSessionKey st)) (bucket @ [courseOf row])
                         (ensureBucket (sessionKeyFor row (currentSessionKey st)) (groupedData st)),
                     currentSessionKey = Some (sessionKeyFor row (currentSessionKey st))\<rparr>))"
  by (simp add: rowStep_def Let_def)

text \<open>What a non-blank row does: it is filed under its key, and only that bucket changes.\<close>

lemma rowStep_filed:
  assumes "\<not> isTrulyBlankRow row" "rowStep row st = Inr st'"
  shows "currentSessionKey st' = Some (sessionKeyFor row (currentSessionKey st))"
    and "k \<noteq> sessionKeyFor row (currentSessionKey st) \<Longrightarrow>
           map_of (groupedData st') k = map_of (groupedData st) k"
    and "isFooterCourse (Course row) \<Longrightarrow> map_of (groupedData st') k = Some b \<Longrightarrow>
           b = (case map_of (groupedData st) k of None \<Rightarrow> [] | Some b0 \<Rightarrow> b0)"
    and "\<not> isFooterCourse (Course row) \<Longrightarrow>
           map_of (groupedData st') (sessionKeyFor row (currentSessionKey st)) =
             Some ((case map_of (groupedData st) (sessionKeyFor row (currentSessionKey st)) of
                      None \<Rightarrow> [] | Some b0 \<Rightarrow> b0) @ [courseOf row])"
  using assms
  by (auto simp: rowStep_nonblank map_of_ensureBucket update_conv'
           split: if_splits option.splits)

lemma set_update_cases:
  "(k', b') \<in> set (AList.update k v al) \<Longrightarrow> (k', b') = (k, v) \<or> (k', b') \<in> set al"
  by (induction al) (auto split: if_splits)

lemma Course_courseOf [simp]: "Course (courseOf row) = Course row"
  by (simp add: courseOf_def)

lemma rowStep_keeps_footers_out:
  assumes inv: "\<And>k b c. (k, b) \<in> set (groupedData st) \<Longrightarrow> c \<in> set b \<Longrightarrow> \<not> isFooterCourse (Course c)"
    and step: "rowStep row st = Inr st'"
    and mem: "(k, b) \<in> set (groupedData st')" "c \<in> set b"
  shows "\<not> isFooterCourse (Course c)"
proof (cases "isTrulyBlankRow row")
  case True
  with step mem inv show ?thesis by (auto simp: rowStep_def)
next
  case False
  define key where "key = sessionKeyFor row (currentSessionKey st)"
  define g1 where "g1 = ensureBucket key (groupedData st)"
  have inv1: "(k', b') \<in> set g1 \<Longrightarrow> c' \<in> set b' \<Longrightarrow> \<not> isFooterCourse (Course c')" for k' b' c'
    using inv set_ensureBucket[of key "groupedData st"] unfolding g1_def by fastforce
  show ?thesis
  proof (cases "isFooterCourse (Course row)")
    case True
    with False step have "groupedData st' = g1"
      unfolding g1_def key_def by (auto simp: rowStep_nonblank)
    with mem inv1 show ?thesis by blast
  next
    case nf: False
    with False step obtain bucket where
      bucket: "map_of g1 key = Some bucket" and
      g': "groupedData st' = AList.update key (bucket @ [courseOf row]) g1"
      unfolding g1_def key_def by (auto simp: rowStep_nonblank split: option.splits)
    from mem(1) g' have "(k, b) = (key, bucket @ [courseOf row]) \<or> (k, b) \<in> set g1"
      by (auto dest: set_update_cases)
    then show ?thesis
    proof
      assume "(k, b) = (key, bucket @ [courseOf row])"
      with mem(2) have "c \<in> set bucket \<or> c = courseOf row" by auto
      moreover have "(key, bucket) \<in> set g1" using bucket by (rule map_of_SomeD)
      ultimately show ?thesis using inv1 nf by auto
    next
      assume "(k, b) \<in> set g1"
      with mem(2) inv1 show ?thesis by blast
    qed
  qed
qed

lemma groupRows_keeps_footers_out:
  assumes "groupRows rows st = Inr st'"
    and "\<And>k b c. (k, b) \<in> set (groupedData st) \<Longrightarrow> c \<in> set b \<Longrightarrow> \<not> isFooterCourse (Course c)"
    and "(k, b) \<in> set (groupedData st')" "c \<in> set b"
  shows "\<not> isFooterCourse (Course c)"
  using assms
proof (induction rows arbitrary: st)
  case Nil
  then show ?case by auto
next
  case (Cons row rows)
  from Cons.prems(1) obtain st1 where
    s1: "rowStep row st = Inr st1" and s2: "groupRows rows st1 = Inr st'"
    by (auto split: sum.splits)
  have "\<And>k b c. (k, b) \<in> set (groupedData st1) \<Longrightarrow> c \<in> set b \<Longrightarrow> \<not> isFooterCourse (Course c)"
    using rowStep_keeps_footers_out[OF _ s1] Cons.prems(2) by blast
  from Cons.IH[OF s2 this Cons.prems(3,4)] show ?case .
qed

lemma filedUnder_unchanged:
  assumes "groupRows rows st = Inr st'" "k \<notin> set (filedUnder rows (currentSessionKey st))"
  shows "map_of (groupedData st') k = map_of (groupedData st) k"
  using assms
proof (induction rows arbitrary: st)
  case Nil
  then show ?case by simp
next
  case (Cons row rows)
  from Cons.prems(1) obtain st1 where
    s1: "rowStep row st = Inr st1" and s2: "groupRows rows st1 = Inr st'"
    by (auto split: sum.splits)
  show ?case
  proof (cases "isTrulyBlankRow row")
    case True
    with s1 have st1: "st1 = st\<lparr>currentSessionKey := None\<rparr>" by (simp add: rowStep_blank)
    with Cons.prems(2) True have "k \<notin> set (filedUnder rows (currentSessionKey st1))" by simp
    from Cons.IH[OF s2 this] st1 show ?thesis by simp
  next
    case False
    with Cons.prems(2) have k: "k \<noteq> sessionKeyFor row (currentSessionKey st)"
      and rest: "k \<notin> set (filedUnder rows (Some (sessionKeyFor row (currentSessionKey st))))"
      by auto
    from rowStep_filed(1)[OF False s1] rest
    have "k \<notin> set (filedUnder rows (currentSessionKey st1))" by simp
    from Cons.IH[OF s2 this] rowStep_filed(2)[OF False s1 k] show ?thesis by simp
  qed
qed

lemma groupRows_append:
  "groupRows (xs @ ys) st = (case groupRows xs st of Inl e \<Rightarrow> Inl e | Inr st1 \<Rightarrow> groupRows ys st1)"
  by (induction xs arbitrary: st) (auto split: sum.splits)

section \<open>C4: when a bucket stops growing\<close>

text \<open>
  C4 says that once a blank boundary row has reset the current-session pointer, no later
  row is ever appended to the bucket that was being filled, even when a later row carries
  a session value with the same label. The buckets are the properties of one object,
  keyed by label, and an existing bucket is kept (\<^verbatim>\<open>if (!groupedData[key])\<close>), so a
  later row with the same label is appended to the same bucket: below, the third row
  comes after the boundary and ends up in the bucket of the first.
\<close>

theorem bucket_reopened_counterexample:
  "isTrulyBlankRow \<lparr>Course = [], CatNo = [], Grade = JStr [], SemHrs = JStr [], rawSem = JStr [], Sem = []\<rparr> \<and>
   groupAll [\<lparr>Course = ''Intro'', CatNo = ''101'', Grade = JStr ''A'', SemHrs = JNum 3, rawSem = JStr ''Aug-18 Sem I'', Sem = ''Aug-18 Sem I''\<rparr>,
             \<lparr>Course = [], CatNo = [], Grade = JStr [], SemHrs = JStr [], rawSem = JStr [], Sem = []\<rparr>]
     = Inr [(''Aug-18 Sem I'', [\<lparr>Course = ''Intro'', CatNo = ''101'', Grade = JStr ''A'', SemHrs = JNum 3\<rparr>])] \<and>
   groupAll [\<lparr>Course = ''Intro'', CatNo = ''101'', Grade = JStr ''A'', SemHrs = JNum 3, rawSem = JStr ''Aug-18 Sem I'', Sem = ''Aug-18 Sem I''\<rparr>,
             \<lparr>Course = [], CatNo = [], Grade = JStr [], SemHrs = JStr [], rawSem = JStr [], Sem = []\<rparr>,
             \<lparr>Course = ''Greek'', CatNo = ''102'', Grade = JStr ''B'', SemHrs = JNum 3, rawSem = JStr ''Aug-18 Sem I'', Sem = ''Aug-18 Sem I''\<rparr>]
     = Inr [(''Aug-18 Sem I'', [\<lparr>Course = ''Intro'', CatNo = ''101'', Grade = JStr ''A'', SemHrs = JNum 3\<rparr>,
                                \<lparr>Course = ''Greek'', CatNo = ''102'', Grade = JStr ''B'', SemHrs = JNum 3\<rparr>])]"
  by code_simp

text \<open>
  C4, amended: once a boundary row has reset the pointer, the bucket of a key gets no
  further entry as long as no later row is filed under that key. The row that comes
  next is appended to that bucket exactly when it is not blank, is not a footer row and
  is filed under the same key (it has a session value of the same label, or, with no
  session value, the pointer it continues gives that key); every other row leaves the
  bucket as it was.
\<close>

theorem bucket_closed_until_refiled:
  assumes "isTrulyBlankRow boundary"
    and "groupRows (boundary # rows) st = Inr st1"
    and "k \<notin> set (filedUnder rows None)"
  shows "map_of (groupedData st1) k = map_of (groupedData st) k \<and>
         (rowStep row st1 = Inr st2 \<and> map_of (groupedData st) k = Some b \<longrightarrow>
            groupRows (boundary # rows @ [row]) st = Inr st2 \<and>
            map_of (groupedData st2) k =
              (if \<not> isTrulyBlankRow row \<and> \<not> isFooterCourse (Course row) \<and>
                  sessionKeyFor row (currentSessionKey st1) = k
               then Some (b @ [courseOf row]) else Some b))"
proof (intro conjI impI)
  from assms(1,2) have "groupRows rows (st\<lparr>currentSessionKey := None\<rparr>) = Inr st1"
    by (simp add: rowStep_blank)
  from filedUnder_unchanged[OF this] assms(3)
  show same: "map_of (groupedData st1) k = map_of (groupedData st) k" by simp
  assume "rowStep row st1 = Inr st2 \<and> map_of (groupedData st) k = Some b"
  then have step: "rowStep row st1 = Inr st2" and b: "map_of (groupedData st1) k = Some b"
    using same by simp_all
  have "groupRows ((boundary # rows) @ [row]) st = Inr st2"
    unfolding groupRows_append using assms(2) step by simp
  then show "groupRows (boundary # rows @ [row]) st = Inr st2" by simp
  show "map_of (groupedData st2) k =
          (if \<not> isTrulyBlankRow row \<and> \<not> isFooterCourse (Course row) \<and>
              sessionKeyFor row (currentSessionKey st1) = k
           then Some (b @ [courseOf row]) else Some b)"
  proof (cases "isTrulyBlankRow row")
    case True
    with step b show ?thesis by (auto simp: rowStep_blank)
  next
    case nb: False
    show ?thesis
    proof (cases "sessionKeyFor row (currentSessionKey st1) = k")
      case False
      then have "k \<noteq> sessionKeyFor row (currentSessionKey st1)" by auto
      from rowStep_filed(2)[OF nb step this] b False show ?thesis by simp
    next
      case key: True
      show ?thesis
      proof (cases "isFooterCourse (Course row)")
        case True
        with nb step key have "groupedData st2 = ensureBucket k (groupedData st1)"
          by (auto simp: rowStep_nonblank)
        with b True show ?thesis by (simp add: map_of_ensureBucket)
      next
        case False
        from rowStep_filed(4)[OF nb step False] key b nb False show ?thesis by simp
      qed
    qed
  qed
qed

theorem bucket_closed_until_refiled_witness:
  "isTrulyBlankRow \<lparr>Course = [], CatNo = [], Grade = JStr [], SemHrs = JStr [], rawSem = JStr [], Sem = []\<rparr> \<and>
   groupRows [\<lparr>Course = [], CatNo = [], Grade = JStr [], SemHrs = JStr [], rawSem = JStr [], Sem = []\<rparr>,
              \<lparr>Course = ''Greek'', CatNo = ''102'', Grade = JStr ''B'', SemHrs = JNum 3, rawSem = JStr ''Jan-19 Sem II'', Sem = ''Jan-19 Sem II''\<rparr>]
       \<lparr>groupedData = [(''Aug-18 Sem I'', [\<lparr>Course = ''Intro'', CatNo = ''101'', Grade = JStr ''A'', SemHrs = JNum 3\<rparr>])],
        currentSessionKey = Some ''Aug-18 Sem I''\<rparr>
     = Inr \<lparr>groupedData = [(''Aug-18 Sem I'', [\<lparr>Course = ''Intro'', CatNo = ''101'', Grade = JStr ''A'', SemHrs = JNum 3\<rparr>]),
                           (''Jan-19 Sem II'', [\<lparr>Course = ''Greek'', CatNo = ''102'', Grade = JStr ''B'', SemHrs = JNum 3\<rparr>])],
            currentSessionKey = Some ''Jan-19 Sem II''\<rparr> \<and>
   ''Aug-18 Sem I'' \<notin> set (filedUnder [\<lparr>Course = ''Greek'', CatNo = ''102'', Grade = JStr ''B'', SemHrs = JNum 3, rawSem = JStr ''Jan-19 Sem II'', Sem = ''Jan-19 Sem II''\<rparr>] None) \<and>
   map_of [(''Aug-18 Sem I'', [\<lparr>Course = ''Intro'', CatNo = ''101'', Grade = JStr ''A'', SemHrs = JNum 3\<rparr>]),
           (''Jan-19 Sem II'', [\<lparr>Course = ''Greek'', CatNo = ''102'', Grade = JStr ''B'', SemHrs = JNum 3\<rparr>])] ''Aug-18 Sem I''
     = Some [\<lparr>Course = ''Intro'', CatNo = ''101'', Grade = JStr ''A'', SemHrs = JNum 3\<rparr>] \<and>
   groupRows [\<lparr>Course = [], CatNo = [], Grade = JStr [], SemHrs = JStr [], rawSem = JStr [], Sem = []\<rparr>,
              \<lparr>Course = ''Greek'', CatNo = ''102'', Grade = JStr ''B'', SemHrs = JNum 3, rawSem = JStr ''Jan-19 Sem II'', Sem = ''Jan-19 Sem II''\<rparr>,
              \<lparr>Course = ''Hebrew'', CatNo = ''103'', Grade = JStr ''C'', SemHrs = JNum 2, rawSem = JStr ''Aug-18 Sem I'', Sem = ''Aug-18 Sem I''\<rparr>]
       \<lparr>groupedData = [(''Aug-18 Sem I'', [\<lparr>Course = ''Intro'', CatNo = ''101'', Grade = JStr ''A'', SemHrs = JNum 3\<rparr>])],
        currentSessionKey = Some ''Aug-18 Sem I''\<rparr>
     = Inr \<lparr>groupedData = [(''Aug-18 Sem I'', [\<lparr>Course = ''Intro'', CatNo = ''101'', Grade = JStr ''A'', SemHrs = JNum 3\<rparr>,
                                 \<lparr>Course = ''Hebrew'', CatNo = ''103'', Grade = JStr ''C'', SemHrs = JNum 2\<rparr>]),
                           (''Jan-19 Sem II'', [\<lparr>Course = ''Greek'', CatNo = ''102'', Grade = JStr ''B'', SemHrs = JNum 3\<rparr>])],
            currentSessionKey = Some ''Aug-18 Sem I''\<rparr> \<and>
   map_of [(''Aug-18 Sem I'', [\<lparr>Course = ''Intro'', CatNo = ''101'', Grade = JStr ''A'', SemHrs = JNum 3\<rparr>,
                                 \<lparr>Course = ''Hebrew'', CatNo = ''103'', Grade = JStr ''C'', SemHrs = JNum 2\<rparr>]),
           (''Jan-19 Sem II'', [\<lparr>Course = ''Greek'', CatNo = ''102'', Grade = JStr ''B'', SemHrs = JNum 3\<rparr>])] ''Aug-18 Sem I''
     = Some [\<lparr>Course = ''Intro'', CatNo = ''101'', Grade = JStr ''A'', SemHrs = JNum 3\<rparr>,
                                 \<lparr>Course = ''Hebrew'', CatNo = ''103'', Grade = JStr ''C'', SemHrs = JNum 2\<rparr>] \<and>
   groupRows [\<lparr>Course = [], CatNo = [], Grade = JStr [], SemHrs = JStr [], rawSem = JStr [], Sem = []\<rparr>,
              \<lparr>Course = ''Greek'', CatNo = ''102'', Grade = JStr ''B'', SemHrs = JNum 3, rawSem = JStr ''Jan-19 Sem II'', Sem = ''Jan-19 Sem II''\<rparr>,
              \<lparr>Course = ''Cumulative Grade Point Average: 3.2'', CatNo = [], Grade = JStr [], SemHrs = JStr [], rawSem = JStr ''Aug-18 Sem I'', Sem = ''Aug-18 Sem I''\<rparr>]
       \<lparr>groupedData = [(''Aug-18 Sem I'', [\<lparr>Course = ''Intro'', CatNo = ''101'', Grade = JStr ''A'', SemHrs = JNum 3\<rparr>])],
        currentSessionKey = Some ''Aug-18 Sem I''\<rparr>
     = Inr \<lparr>groupedData = [(''Aug-18 Sem I'', [\<lparr>Course = ''Intro'', CatNo = ''101'', Grade = JStr ''A'', SemHrs = JNum 3\<rparr>]),
                           (''Jan-19 Sem II'', [\<lparr>Course = ''Greek'', CatNo = ''102'', Grade = JStr ''B'', SemHrs = JNum 3\<rparr>])],
            currentSessionKey = Some ''Aug-18 Sem I''\<rparr> \<and>
   map_of [(''Aug-18 Sem I'', [\<lparr>Course = ''Intro'', CatNo = ''101'', Grade = JStr ''A'', SemHrs = JNum 3\<rparr>]),
           (''Jan-19 Sem II'', [\<lparr>Course = ''Greek'', CatNo = ''102'', Grade = JStr ''B'', SemHrs = JNum 3\<rparr>])] ''Aug-18 Sem I''
     = Some [\<lparr>Course = ''Intro'', CatNo = ''101'', Grade = JStr ''A'', SemHrs = JNum 3\<rparr>]"
proof -
  let ?blank = "\<lparr>Course = [], CatNo = [], Grade = JStr [], SemHrs = JStr [], rawSem = JStr [], Sem = []\<rparr>"
  let ?j = "\<lparr>Course = ''Greek'', CatNo = ''102'', Grade = JStr ''B'', SemHrs = JNum 3, rawSem = JStr ''Jan-19 Sem II'', Sem = ''Jan-19 Sem II''\<rparr>"
  let ?h = "\<lparr>Course = ''Hebrew'', CatNo = ''103'', Grade = JStr ''C'', SemHrs = JNum 2, rawSem = JStr ''Aug-18 Sem I'', Sem = ''Aug-18 Sem I''\<rparr>"
  let ?f = "\<lparr>Course = ''Cumulative Grade Point Average: 3.2'', CatNo = [], Grade = JStr [], SemHrs = JStr [], rawSem = JStr ''Aug-18 Sem I'', Sem = ''Aug-18 Sem I''\<rparr>"
  let ?cA = "\<lparr>Course = ''Intro'', CatNo = ''101'', Grade = JStr ''A'', SemHrs = JNum 3\<rparr>"
  let ?cB = "\<lparr>Course = ''Greek'', CatNo = ''102'', Grade = JStr ''B'', SemHrs = JNum 3\<rparr>"
  let ?cH = "\<lparr>Course = ''Hebrew'', CatNo = ''103'', Grade = JStr ''C'', SemHrs = JNum 2\<rparr>"
  let ?st = "\<lparr>groupedData = [(''Aug-18 Sem I'', [?cA])], currentSessionKey = Some ''Aug-18 Sem I''\<rparr>"
  let ?st1 = "\<lparr>groupedData = [(''Aug-18 Sem I'', [?cA]), (''Jan-19 Sem II'', [?cB])], currentSessionKey = Some ''Jan-19 Sem II''\<rparr>"
  let ?sh = "\<lparr>groupedData = [(''Aug-18 Sem I'', [?cA, ?cH]), (''Jan-19 Sem II'', [?cB])], currentSessionKey = Some ''Aug-18 Sem I''\<rparr>"
  let ?sf = "\<lparr>groupedData = [(''Aug-18 Sem I'', [?cA]), (''Jan-19 Sem II'', [?cB])], currentSessionKey = Some ''Aug-18 Sem I''\<rparr>"
  have 1: "isTrulyBlankRow ?blank" by code_simp
  have 2: "groupRows [?blank, ?j] ?st = Inr ?st1" by code_simp
  have 3: "''Aug-18 Sem I'' \<notin> set (filedUnder [?j] None)" by code_simp
  have 4: "rowStep ?h ?st1 = Inr ?sh" by code_simp
  have 5: "rowStep ?f ?st1 = Inr ?sf" by code_simp
  have 6: "\<not> isTrulyBlankRow ?h" "\<not> isFooterCourse (Course ?h)"
    "sessionKeyFor ?h (currentSessionKey ?st1) = ''Aug-18 Sem I''" by code_simp+
  have 7: "isFooterCourse (Course ?f)" by code_simp
  have 8: "courseOf ?h = ?cH" by code_simp
  note T = bucket_closed_until_refiled[OF 1 2 3]
  from T[of ?h ?sh "[?cA]"] 4 6 8
  have h: "groupRows [?blank, ?j, ?h] ?st = Inr ?sh \<and>
           map_of (groupedData ?sh) ''Aug-18 Sem I'' = Some [?cA, ?cH]"
    by simp
  from T[of ?f ?sf "[?cA]"] 5 7
  have f: "groupRows [?blank, ?j, ?f] ?st = Inr ?sf \<and>
           map_of (groupedData ?sf) ''Aug-18 Sem I'' = Some [?cA]"
    by simp
  from T[of ?h ?sh "[?cA]"] have m: "map_of (groupedData ?st1) ''Aug-18 Sem I'' = map_of (groupedData ?st) ''Aug-18 Sem I''"
    by blast
  have m': "map_of [(''Aug-18 Sem I'', [?cA]), (''Jan-19 Sem II'', [?cB])] ''Aug-18 Sem I'' = Some [?cA]"
    using m by simp
  from h have h1: "groupRows [?blank, ?j, ?h] ?st = Inr ?sh" and
    h2: "map_of [(''Aug-18 Sem I'', [?cA, ?cH]), (''Jan-19 Sem II'', [?cB])] ''Aug-18 Sem I'' = Some [?cA, ?cH]"
    by simp_all
  from f have f1: "groupRows [?blank, ?j, ?f] ?st = Inr ?sf" and
    f2: "map_of [(''Aug-18 Sem I'', [?cA]), (''Jan-19 Sem II'', [?cB])] ''Aug-18 Sem I'' = Some [?cA]"
    by simp_all
  from 1 2 3 m' h1 h2 f1 f2 show ?thesis by (intro conjI)
qed

section \<open>C6: blank rows and the NoSession bucket\<close>

text \<open>
  C6 says that a row whose four trimmed fields are all empty is appended to no bucket
  and resets the current-session pointer to null, and that any later non-blank row
  without a session value, reached while the pointer is null, is bucketed under the key
  \<open>"NoSession"\<close>. The first part holds. The second fails for a footer row, the
  usual case of a row without a session value after a blank line: the pointer becomes
  \<open>"NoSession"\<close> and that bucket is created, but the row is put into no bucket.
\<close>

theorem footer_row_after_boundary_counterexample:
  "\<not> isTrulyBlankRow \<lparr>Course = ''Number of Semester Hours Required for Graduation: 128'', CatNo = [],
                       Grade = JStr [], SemHrs = JStr [], rawSem = JStr [], Sem = []\<rparr> \<and>
   rawVal \<lparr>Course = ''Number of Semester Hours Required for Graduation: 128'', CatNo = [],
           Grade = JStr [], SemHrs = JStr [], rawSem = JStr [], Sem = []\<rparr> = [] \<and>
   rowStep \<lparr>Course = ''Number of Semester Hours Required for Graduation: 128'', CatNo = [],
            Grade = JStr [], SemHrs = JStr [], rawSem = JStr [], Sem = []\<rparr>
       \<lparr>groupedData = [], currentSessionKey = None\<rparr>
     = Inr \<lparr>groupedData = [(''NoSession'', [])], currentSessionKey = Some ''NoSession''\<rparr>"
  by code_simp

text \<open>
  C6, amended: a row whose four trimmed fields are all empty is appended to no bucket
  (the buckets stay as they are) and resets the current-session pointer to null; a
  later non-blank row without a session value, reached while the pointer is null, is
  filed under the key \<open>"NoSession"\<close>: the pointer becomes that key, the bucket of
  that key exists afterwards, and the row's course fields are appended to it unless the
  course text starts with a footer marker. No other bucket changes.
\<close>

theorem blank_row_resets_and_NoSession:
  "(isTrulyBlankRow row \<longrightarrow> rowStep row st = Inr (st\<lparr>currentSessionKey := None\<rparr>)) \<and>
   (\<not> isTrulyBlankRow row \<and> rawVal row = [] \<and> currentSessionKey st = None \<longrightarrow>
      (\<exists>st'. rowStep row st = Inr st' \<and>
         currentSessionKey st' = Some ''NoSession'' \<and>
         map_of (groupedData st') ''NoSession'' =
           Some ((case map_of (groupedData st) ''NoSession'' of None \<Rightarrow> [] | Some b \<Rightarrow> b)
                 @ (if isFooterCourse (Course row) then [] else [courseOf row])) \<and>
         (\<forall>k. k \<noteq> ''NoSession'' \<longrightarrow> map_of (groupedData st') k = map_of (groupedData st) k)))"
proof (intro conjI impI)
  assume "isTrulyBlankRow row"
  then show "rowStep row st = Inr (st\<lparr>currentSessionKey := None\<rparr>)" by (rule rowStep_blank)
next
  assume a: "\<not> isTrulyBlankRow row \<and> rawVal row = [] \<and> currentSessionKey st = None"
  then have key: "sessionKeyFor row (currentSessionKey st) = ''NoSession''"
    by (simp add: sessionKeyFor_def)
  have np: "''NoSession'' \<notin> set objectPrototypeKeys" by (simp add: objectPrototypeKeys_def)
  define b0 where "b0 = (case map_of (groupedData st) ''NoSession'' of None \<Rightarrow> [] | Some b \<Rightarrow> b)"
  have lk: "map_of (ensureBucket ''NoSession'' (groupedData st)) ''NoSession'' = Some b0"
    using np by (simp add: map_of_ensureBucket b0_def split: option.splits)
  have other: "k \<noteq> ''NoSession'' \<Longrightarrow>
      map_of (ensureBucket ''NoSession'' (groupedData st)) k = map_of (groupedData st) k" for k
    by (simp add: map_of_ensureBucket)
  from a have nb: "\<not> isTrulyBlankRow row" by simp
  have step: "rowStep row st =
      (if isFooterCourse (Course row)
       then Inr \<lparr>groupedData = ensureBucket ''NoSession'' (groupedData st),
                 currentSessionKey = Some ''NoSession''\<rparr>
       else Inr \<lparr>groupedData = AList.update ''NoSession'' (b0 @ [courseOf row])
                                 (ensureBucket ''NoSession'' (groupedData st)),
                 currentSessionKey = Some ''NoSession''\<rparr>)"
    using rowStep_nonblank[OF nb, of st, unfolded key] by (simp add: lk)
  show "\<exists>st'. rowStep row st = Inr st' \<and>
         currentSessionKey st' = Some ''NoSession'' \<and>
         map_of (groupedData st') ''NoSession'' =
           Some ((case map_of (groupedData st) ''NoSession'' of None \<Rightarrow> [] | Some b \<Rightarrow> b)
                 @ (if isFooterCourse (Course row) then [] else [courseOf row])) \<and>
         (\<forall>k. k \<noteq> ''NoSession'' \<longrightarrow> map_of (groupedData st') k = map_of (groupedData st) k)"
    unfolding step b0_def[symmetric]
    by (simp add: lk update_conv' other)
qed

theorem blank_row_resets_and_NoSession_witness:
  "isTrulyBlankRow \<lparr>Course = [], CatNo = [], Grade = JStr [], SemHrs = JStr [], rawSem = JStr '' '', Sem = '' ''\<rparr> \<and>
   rowStep \<lparr>Course = [], CatNo = [], Grade = JStr [], SemHrs = JStr [], rawSem = JStr '' '', Sem = '' ''\<rparr>
       \<lparr>groupedData = [(''Aug-18 Sem I'', [\<lparr>Course = ''Intro'', CatNo = ''101'', Grade = JStr ''A'', SemHrs = JNum 3\<rparr>])],
        currentSessionKey = Some ''Aug-18 Sem I''\<rparr>
     = Inr \<lparr>groupedData = [(''Aug-18 Sem I'', [\<lparr>Course = ''Intro'', CatNo = ''101'', Grade = JStr ''A'', SemHrs = JNum 3\<rparr>])],
            currentSessionKey = None\<rparr> \<and>
   \<not> isTrulyBlankRow \<lparr>Course = ''Greek'', CatNo = ''102'', Grade = JStr ''B'', SemHrs = JNum 3, rawSem = JStr [], Sem = []\<rparr> \<and>
   rawVal \<lparr>Course = ''Greek'', CatNo = ''102'', Grade = JStr ''B'', SemHrs = JNum 3, rawSem = JStr [], Sem = []\<rparr> = [] \<and>
   rowStep \<lparr>Course = ''Greek'', CatNo = ''102'', Grade = JStr ''B'', SemHrs = JNum 3, rawSem = JStr [], Sem = []\<rparr>
       \<lparr>groupedData = [(''Aug-18 Sem I'', [\<lparr>Course = ''Intro'', CatNo = ''101'', Grade = JStr ''A'', SemHrs = JNum 3\<rparr>])],
        currentSessionKey = None\<rparr>
     = Inr \<lparr>groupedData = [(''Aug-18 Sem I'', [\<lparr>Course = ''Intro'', CatNo = ''101'', Grade = JStr ''A'', SemHrs = JNum 3\<rparr>]),
                           (''NoSession'', [\<lparr>Course = ''Greek'', CatNo = ''102'', Grade = JStr ''B'', SemHrs = JNum 3\<rparr>])],
            currentSessionKey = Some ''NoSession''\<rparr>"
proof -
  let ?blank = "\<lparr>Course = [], CatNo = [], Grade = JStr [], SemHrs = JStr [], rawSem = JStr '' '', Sem = '' ''\<rparr>"
  let ?cont = "\<lparr>Course = ''Greek'', CatNo = ''102'', Grade = JStr ''B'', SemHrs = JNum 3, rawSem = JStr [], Sem = []\<rparr>"
  let ?g = "[(''Aug-18 Sem I'', [\<lparr>Course = ''Intro'', CatNo = ''101'', Grade = JStr ''A'', SemHrs = JNum 3\<rparr>])]"
  have 1: "isTrulyBlankRow ?blank" by code_simp
  have 2: "\<not> isTrulyBlankRow ?cont" by code_simp
  have 3: "rawVal ?cont = []" by code_simp
  have 4: "rowStep ?cont \<lparr>groupedData = ?g, currentSessionKey = None\<rparr>
     = Inr \<lparr>groupedData = ?g @ [(''NoSession'', [\<lparr>Course = ''Greek'', CatNo = ''102'', Grade = JStr ''B'', SemHrs = JNum 3\<rparr>])],
            currentSessionKey = Some ''NoSession''\<rparr>" by code_simp
  show ?thesis
    using blank_row_resets_and_NoSession[of ?blank "\<lparr>groupedData = ?g, currentSessionKey = Some ''Aug-18 Sem I''\<rparr>"]
      blank_row_resets_and_NoSession[of ?cont "\<lparr>groupedData = ?g, currentSessionKey = None\<rparr>"]
      1 2 3 4
    by simp
qed

section \<open>C7: footer rows\<close>

text \<open>
  C7: a row whose course text, lower-cased and trimmed, starts with one of the three
  footer markers is excluded from every bucket. For one step: after such a row every
  bucket holds what it held before (a bucket created by the step is empty). For the
  whole fold: no entry of any bucket of the grouped output has a footer course text.
\<close>

theorem footer_rows_never_bucketed:
  "(isFooterCourse (Course row) \<and> rowStep row st = Inr st' \<and> map_of (groupedData st') k = Some b
      \<longrightarrow> b = (case map_of (groupedData st) k of None \<Rightarrow> [] | Some b0 \<Rightarrow> b0)) \<and>
   (groupAll processed = Inr g \<and> (k', b') \<in> set g \<and> c \<in> set b' \<longrightarrow> \<not> isFooterCourse (Course c))"
proof (intro conjI impI)
  assume a: "isFooterCourse (Course row) \<and> rowStep row st = Inr st' \<and> map_of (groupedData st') k = Some b"
  show "b = (case map_of (groupedData st) k of None \<Rightarrow> [] | Some b0 \<Rightarrow> b0)"
  proof (cases "isTrulyBlankRow row")
    case True
    with a show ?thesis by (auto simp: rowStep_blank)
  next
    case False
    from rowStep_filed(3)[OF False] a show ?thesis by blast
  qed
next
  assume a: "groupAll processed = Inr g \<and> (k', b') \<in> set g \<and> c \<in> set b'"
  then obtain st' where
    "groupRows processed \<lparr>groupedData = [], currentSessionKey = None\<rparr> = Inr st'" "groupedData st' = g"
    by (auto simp: groupAll_def split: sum.splits)
  from groupRows_keeps_footers_out[OF this(1), of k' b' c] this(2) a
  show "\<not> isFooterCourse (Course c)" by auto
qed

theorem footer_rows_never_bucketed_witness:
  "isFooterCourse ''  CUMULATIVE Grade Point Average: 3.1'' \<and>
   rowStep \<lparr>Course = ''  CUMULATIVE Grade Point Average: 3.1'', CatNo = [], Grade = JStr [], SemHrs = JStr [], rawSem = JStr [], Sem = []\<rparr>
       \<lparr>groupedData = [(''Aug-18 Sem I'', [\<lparr>Course = ''Intro'', CatNo = ''101'', Grade = JStr ''A'', SemHrs = JNum 3\<rparr>])],
        currentSessionKey = Some ''Aug-18 Sem I''\<rparr>
     = Inr \<lparr>groupedData = [(''Aug-18 Sem I'', [\<lparr>Course = ''Intro'', CatNo = ''101'', Grade = JStr ''A'', SemHrs = JNum 3\<rparr>])],
            currentSessionKey = Some ''Aug-18 Sem I''\<rparr> \<and>
   groupAll [\<lparr>Course = ''Intro'', CatNo = ''101'', Grade = JStr ''A'', SemHrs = JNum 3, rawSem = JStr ''Aug-18 Sem I'', Sem = ''Aug-18 Sem I''\<rparr>,
             \<lparr>Course = ''  CUMULATIVE Grade Point Average: 3.1'', CatNo = [], Grade = JStr [], SemHrs = JStr [], rawSem = JStr [], Sem = []\<rparr>]
     = Inr [(''Aug-18 Sem I'', [\<lparr>Course = ''Intro'', CatNo = ''101'', Grade = JStr ''A'', SemHrs = JNum 3\<rparr>])] \<and>
   \<not> isFooterCourse ''Intro''"
proof -
  let ?a = "\<lparr>Course = ''Intro'', CatNo = ''101'', Grade = JStr ''A'', SemHrs = JNum 3, rawSem = JStr ''Aug-18 Sem I'', Sem = ''Aug-18 Sem I''\<rparr>"
  let ?f = "\<lparr>Course = ''  CUMULATIVE Grade Point Average: 3.1'', CatNo = [], Grade = JStr [], SemHrs = JStr [], rawSem = JStr [], Sem = []\<rparr>"
  let ?c = "\<lparr>Course = ''Intro'', CatNo = ''101'', Grade = JStr ''A'', SemHrs = JNum 3\<rparr>"
  let ?st = "\<lparr>groupedData = [(''Aug-18 Sem I'', [?c])], currentSessionKey = Some ''Aug-18 Sem I''\<rparr>"
  have 1: "isFooterCourse ''  CUMULATIVE Grade Point Average: 3.1''" by code_simp
  have 2: "rowStep ?f ?st = Inr ?st" by code_simp
  have 3: "groupAll [?a, ?f] = Inr [(''Aug-18 Sem I'', [?c])]" by code_simp
  from footer_rows_never_bucketed[of ?f ?st ?st "''Aug-18 Sem I''" "[?c]" "[?a, ?f]"
      "[(''Aug-18 Sem I'', [?c])]" "''Aug-18 Sem I''" "[?c]" ?c] 1 2 3
  have "\<not> isFooterCourse ''Intro''" by simp
  with 1 2 3 show ?thesis by simp
qed

section \<open>C5: the display label of a session value\<close>

text \<open>
  C5 says that \<^verbatim>\<open>formatSession\<close> returns \<open>"{MonAbbrev}-{YY} Sem {I|II}"\<close> for a
  value that is a date, with Sem II for January to June and Sem I for every other month
  (July included), and the raw value's string form, unchanged, for a value that is no
  date. The second part fails for a falsy value: the function returns
  \<^verbatim>\<open>String(value || "")\<close>, so for \<^verbatim>\<open>undefined\<close> (no date in any runtime) the
  result is the empty string, not \<open>"undefined"\<close>.
\<close>

theorem formatSession_undefined_counterexample:
  "newDate (\<lambda>v. None) JUndefined = None \<and>
   formatSession (\<lambda>v. None) JUndefined = [] \<and>
   toStringJS JUndefined = ''undefined''"
  by (simp add: formatSession_def newDate_def toStringJS_def orEmpty_def truthy_def)

text \<open>
  C5, amended: for a value that is a date, \<^verbatim>\<open>formatSession\<close> returns the month's
  abbreviation, a hyphen, the last two characters of the decimal year, and \<open>" Sem II"\<close>
  for January to June or \<open>" Sem I"\<close> for every other month (July included). For a
  value that is no date it returns the value's string form when the value is truthy
  and the empty string when it is falsy.
\<close>

theorem formatSession_cases:
  "(newDate host v = Some d \<longrightarrow>
      formatSession host v =
        monthAbbr (dateMonth d) @ ''-'' @ sliceLast2 (intToString (fullYear d)) @ '' Sem '' @
        (if dateMonth d \<in> {Jan, Feb, Mar, Apr, May, Jun} then ''II'' else ''I'')) \<and>
   (newDate host v = None \<longrightarrow>
      formatSession host v = (if truthy v then toStringJS v else []))"
proof (intro conjI impI)
  assume "newDate host v = Some d"
  then show "formatSession host v =
        monthAbbr (dateMonth d) @ ''-'' @ sliceLast2 (intToString (fullYear d)) @ '' Sem '' @
        (if dateMonth d \<in> {Jan, Feb, Mar, Apr, May, Jun} then ''II'' else ''I'')"
    by (cases "dateMonth d") (simp_all add: formatSession_def Let_def)
next
  assume "newDate host v = None"
  then show "formatSession host v = (if truthy v then toStringJS v else [])"
    by (simp add: formatSession_def toStringJS_orEmpty)
qed

theorem formatSession_cases_witness:
  "newDate (\<lambda>v. if v = JStr ''2018-07-15'' then Some \<lparr>dateMonth = Jul, fullYear = 2018\<rparr> else None)
      (JStr ''2018-07-15'') = Some \<lparr>dateMonth = Jul, fullYear = 2018\<rparr> \<and>
   formatSession (\<lambda>v. if v = JStr ''2018-07-15'' then Some \<lparr>dateMonth = Jul, fullYear = 2018\<rparr> else None)
      (JStr ''2018-07-15'') = ''Jul-18 Sem I'' \<and>
   newDate (\<lambda>v. if v = JStr ''2018-07-15'' then Some \<lparr>dateMonth = Jul, fullYear = 2018\<rparr> else None)
      (JStr ''Fall term'') = None \<and>
   formatSession (\<lambda>v. if v = JStr ''2018-07-15'' then Some \<lparr>dateMonth = Jul, fullYear = 2018\<rparr> else None)
      (JStr ''Fall term'') = ''Fall term''"
proof -
  let ?host = "\<lambda>v. if v = JStr ''2018-07-15'' then Some \<lparr>dateMonth = Jul, fullYear = 2018\<rparr> else None"
  have 1: "newDate ?host (JStr ''2018-07-15'') = Some \<lparr>dateMonth = Jul, fullYear = 2018\<rparr>"
    by (simp add: newDate_def)
  have 2: "newDate ?host (JStr ''Fall term'') = None"
    by (simp add: newDate_def)
  have 3: "sliceLast2 (intToString 2018) = ''18''" by code_simp
  have 4: "truthy (JStr ''Fall term'')" "toStringJS (JStr ''Fall term'') = ''Fall term''"
    by (simp_all add: truthy_def toStringJS_def)
  show ?thesis
    using formatSession_cases[of ?host "JStr ''2018-07-15''" "\<lparr>dateMonth = Jul, fullYear = 2018\<rparr>"]
      formatSession_cases[of ?host "JStr ''Fall term''" "\<lparr>dateMonth = Jul, fullYear = 2018\<rparr>"]
      1 2 3 4
    by simp
qed

section \<open>C8: splitting the category number from the course name\<close>

text \<open>
  C8 says that \<^verbatim>\<open>splitCatNoAndCourse\<close> never fails, that a trimmed input starting
  with digits followed by white space is split into the digits and the remainder, and
  that every other input gives an empty category number and the trimmed input as the
  course. The function is total. It splits exactly when the trimmed input is a run of
  digits, a run of white space and a rest with no line break in it: the expression
  ends in \<^verbatim>\<open>(.*)$\<close>, and \<^verbatim>\<open>.\<close> stops at a line break. So the one-line input
  below is split as the function's comment promises, and a cell whose course name runs
  over two lines starts with digits and white space and is not split.
\<close>

theorem splitCatNoAndCourse_multiline:
  "splitCatNoAndCourse v =
     (let strVal = trim (toStringJS (orEmpty v));
          afterDigits = dropWhile isDigit strVal
      in if takeWhile isDigit strVal \<noteq> [] \<and> takeWhile isSpace afterDigits \<noteq> [] \<and>
            list_all (\<lambda>c. \<not> isLineTerminator c) (dropWhile isSpace afterDigits)
         then (takeWhile isDigit strVal, dropWhile isSpace afterDigits)
         else ([], strVal)) \<and>
   trim (''101 Intro to'' @ [CHR 0x0A] @ ''Greek '') = ''101 Intro to'' @ [CHR 0x0A] @ ''Greek'' \<and>
   splitCatNoAndCourse (JStr (''101 Intro to'' @ [CHR 0x0A] @ ''Greek ''))
     = ([], ''101 Intro to'' @ [CHR 0x0A] @ ''Greek'') \<and>
   splitCatNoAndCourse (JStr ''101 Intro to Greek '') = (''101'', ''Intro to Greek'')"
proof (rule conjI)
  show "splitCatNoAndCourse v =
     (let strVal = trim (toStringJS (orEmpty v));
          afterDigits = dropWhile isDigit strVal
      in if takeWhile isDigit strVal \<noteq> [] \<and> takeWhile isSpace afterDigits \<noteq> [] \<and>
            list_all (\<lambda>c. \<not> isLineTerminator c) (dropWhile isSpace afterDigits)
         then (takeWhile isDigit strVal, dropWhile isSpace afterDigits)
         else ([], strVal))"
    by (simp add: splitCatNoAndCourse_def catNoRegex_eq Let_def)
next
  show "trim (''101 Intro to'' @ [CHR 0x0A] @ ''Greek '') = ''101 Intro to'' @ [CHR 0x0A] @ ''Greek'' \<and>
   splitCatNoAndCourse (JStr (''101 Intro to'' @ [CHR 0x0A] @ ''Greek ''))
     = ([], ''101 Intro to'' @ [CHR 0x0A] @ ''Greek'') \<and>
   splitCatNoAndCourse (JStr ''101 Intro to Greek '') = (''101'', ''Intro to Greek'')"
    by code_simp
qed

section \<open>Facts about the table\<close>

lemma getColumnLines_no_empty: "[] \<notin> set (getColumnLines cs key)"
  by (simp add: getColumnLines_def)

lemma pairedRow_not_blank: "pairedRow lk lc rk rc \<noteq> blankRow"
proof
  assume "pairedRow lk lc rk rc = blankRow"
  then have "pairedRow lk lc rk rc ! 1 = blankRow ! 1" by simp
  then have "getColumnLines lc KCourse = [[]]"
    by (simp add: pairedRow_def blankRow_def)
  with getColumnLines_no_empty[of lc KCourse] show False by simp
qed

lemma pairedRow_length [simp]: "length (pairedRow lk lc rk rc) = 10"
  by (simp add: pairedRow_def)

lemma pairRows_alternate:
  "pairRows so ls rs = Inr rows \<Longrightarrow>
     \<exists>ps. rows = concat (map (\<lambda>p. [p, blankRow]) ps) \<and> list_all (\<lambda>p. length p = 10 \<and> p \<noteq> blankRow) ps"
proof (induction so ls rs arbitrary: rows rule: pairRows.induct)
  case (1 so ls rs)
  show ?case
  proof (cases "ls = [] \<and> rs = []")
    case True
    with "1.prems" have "rows = []" by (simp add: pairRows.simps)
    then show ?thesis by (intro exI[of _ "[]"]) simp
  next
    case False
    with "1.prems" obtain lc rc rest where
      lc: "coursesFor so (shifted ls) = Inr lc" and
      rc: "coursesFor so (shifted rs) = Inr rc" and
      rest: "pairRows so (drop 1 ls) (drop 1 rs) = Inr rest" and
      rows: "rows = pairedRow (shifted ls) lc (shifted rs) rc # blankRow # rest"
      by (subst (asm) pairRows.simps) (auto simp: Let_def split: sum.splits)
    from "1.IH"[OF False refl refl lc rc rest] obtain ps where
      ps: "rest = concat (map (\<lambda>p. [p, blankRow]) ps)"
          "list_all (\<lambda>p. length p = 10 \<and> p \<noteq> blankRow) ps" by blast
    show ?thesis
      using rows ps pairedRow_not_blank
      by (intro exI[of _ "pairedRow (shifted ls) lc (shifted rs) rc # ps"]) simp
  qed
qed

lemma yearRows_alternate:
  "yearRows ay ys = Inr rows \<Longrightarrow>
     \<exists>ps. rows = concat (map (\<lambda>p. [p, blankRow]) ps) \<and> list_all (\<lambda>p. length p = 10 \<and> p \<noteq> blankRow) ps"
proof (induction ys arbitrary: rows)
  case Nil
  then show ?case by (intro exI[of _ "[]"]) simp
next
  case (Cons y ys)
  from Cons.prems obtain r1 r2 where
    y: "oneYearRows ay y = Inr r1" and
    "yearRows ay ys = Inr r2" "rows = r1 @ r2"
    by (auto split: sum.splits)
  from y obtain so ls rs where "pairRows so ls rs = Inr r1"
    by (auto simp: oneYearRows_def Let_def split: option.splits)
  note this \<open>yearRows ay ys = Inr r2\<close> \<open>rows = r1 @ r2\<close>
  with pairRows_alternate[OF this(1)] Cons.IH[OF this(2)] obtain p1 p2 where
    "r1 = concat (map (\<lambda>p. [p, blankRow]) p1)" "list_all (\<lambda>p. length p = 10 \<and> p \<noteq> blankRow) p1"
    "r2 = concat (map (\<lambda>p. [p, blankRow]) p2)" "list_all (\<lambda>p. length p = 10 \<and> p \<noteq> blankRow) p2"
    by blast
  with \<open>rows = r1 @ r2\<close> show ?case by (intro exI[of _ "p1 @ p2"]) simp
qed

section \<open>C9: paired rows and separator rows alternate\<close>

text \<open>
  C9: in every emitted table (a run that throws emits none), the header row is followed
  by paired rows and separator rows in strict alternation: every paired row has ten
  cells, is not blank, and is immediately followed by exactly one separator row, whose
  ten cells each hold one empty line.
\<close>

theorem paired_and_blank_rows_alternate:
  assumes "tableRows g = Inr rows"
  shows "\<exists>ps. rows = headerRow # concat (map (\<lambda>p. [p, blankRow]) ps) \<and>
              list_all (\<lambda>p. length p = 10 \<and> p \<noteq> blankRow) ps \<and>
              length blankRow = 10 \<and> list_all (\<lambda>cell. cell = [[]]) blankRow"
proof -
  from assms obtain body where
    "yearRows (buildAcademicYears g) (sortedYears (buildAcademicYears g)) = Inr body"
    "rows = headerRow # body"
    by (auto simp: tableRows_def Let_def split: sum.splits)
  moreover from yearRows_alternate[OF this(1)] obtain ps where
    "body = concat (map (\<lambda>p. [p, blankRow]) ps)"
    "list_all (\<lambda>p. length p = 10 \<and> p \<noteq> blankRow) ps" by blast
  moreover have "length blankRow = 10" "list_all (\<lambda>cell. cell = [[]]) blankRow"
    by (simp_all add: blankRow_def list_all_iff)
  ultimately show ?thesis by blast
qed

theorem paired_and_blank_rows_alternate_witness:
  "tableRows [(''Aug-18 Sem I'', [\<lparr>Course = ''Intro'', CatNo = ''101'', Grade = JStr ''A'', SemHrs = JNum 3\<rparr>]),
              (''Jan-19 Sem II'', []), (''Aug-19 Sem I'', [])]
     = Inr [headerRow,
            [[''Aug-18 Sem I''], [''Intro''], [''101''], [''A''], [''3''], [''Jan-19 Sem II''], [], [], [], []],
            blankRow,
            [[''Aug-19 Sem I''], [], [], [], [], [[]], [], [], [], []],
            blankRow] \<and>
   (\<exists>ps. [headerRow,
            [[''Aug-18 Sem I''], [''Intro''], [''101''], [''A''], [''3''], [''Jan-19 Sem II''], [], [], [], []],
            blankRow,
            [[''Aug-19 Sem I''], [], [], [], [], [[]], [], [], [], []],
            blankRow] = headerRow # concat (map (\<lambda>p. [p, blankRow]) ps) \<and>
         list_all (\<lambda>p. length p = 10 \<and> p \<noteq> blankRow) ps \<and>
         length blankRow = 10 \<and> list_all (\<lambda>cell. cell = [[]]) blankRow)"
proof -
  have 1: "tableRows [(''Aug-18 Sem I'', [\<lparr>Course = ''Intro'', CatNo = ''101'', Grade = JStr ''A'', SemHrs = JNum 3\<rparr>]),
              (''Jan-19 Sem II'', []), (''Aug-19 Sem I'', [])]
     = Inr [headerRow,
            [[''Aug-18 Sem I''], [''Intro''], [''101''], [''A''], [''3''], [''Jan-19 Sem II''], [], [], [], []],
            blankRow,
            [[''Aug-19 Sem I''], [], [], [], [], [[]], [], [], [], []],
            blankRow]"
    by code_simp
  from paired_and_blank_rows_alternate[OF 1] 1 show ?thesis by simp
qed

section \<open>Facts about object keys and the visited years\<close>

lemma set_objEntries: "set (objEntries obj) = set obj"
  by (auto simp: objEntries_def)

lemma set_objKeys: "set (objKeys obj) = fst ` set obj"
  by (simp add: objKeys_def set_objEntries)

lemma mset_objKeys: "mset (objKeys obj) = mset (map fst obj)"
proof -
  have "mset (objEntries obj) = mset obj"
    by (simp add: objEntries_def)
  then show ?thesis unfolding objKeys_def by (metis mset_map)
qed

lemma filter_objKeys:
  assumes "\<And>k. P k \<Longrightarrow> \<not> isArrayIndex k"
  shows "filter P (objKeys obj) = filter P (map fst obj)"
proof -
  have 1: "filter P (map fst (sort_key (\<lambda>e. strToInt (fst e)) (filter (\<lambda>e. isArrayIndex (fst e)) obj))) = []"
    using assms by (auto simp: filter_empty_conv)
  have 2: "filter P (map fst (filter (\<lambda>e. \<not> isArrayIndex (fst e)) obj)) = filter P (map fst obj)"
    using assms by (induction obj) auto
  show ?thesis by (simp add: objKeys_def objEntries_def 1 2)
qed

lemma isArrayIndex_parseInt10: "isArrayIndex k \<Longrightarrow> parseInt10 k \<noteq> None"
  by (simp add: isArrayIndex_def parseInt10_digits)

lemma digitsOf_digits: "digitsOf n \<noteq> [] \<and> list_all isDigit (digitsOf n)"
proof (induction n rule: digitsOf.induct)
  case (1 n)
  have d: "isDigit (''0123456789'' ! m)" if "m < 10" for m
  proof -
    from that have "m \<in> {0,1,2,3,4,5,6,7,8,9}" by auto
    then show ?thesis by (auto simp: isDigit_def)
  qed
  show ?case
  proof (cases "n < 10")
    case True
    then show ?thesis by (subst (1 2) digitsOf.simps) (simp add: d)
  next
    case False
    with 1 have "digitsOf (n div 10) \<noteq> [] \<and> list_all isDigit (digitsOf (n div 10))" by simp
    with False show ?thesis by (subst (1 2) digitsOf.simps) (simp add: d)
  qed
qed

lemma intToString_not_Unknown: "intToString n \<noteq> ''Unknown''"
proof (cases "n < 0")
  case True
  then show ?thesis by (simp add: intToString_def)
next
  case False
  from digitsOf_digits[of "nat n"] obtain c cs where
    "digitsOf (nat n) = c # cs" "isDigit c" by (cases "digitsOf (nat n)") auto
  with False show ?thesis by (auto simp: intToString_def isDigit_def)
qed

lemma year_Unknown_iff:
  "year (getAcademicYear k) = ''Unknown'' \<longleftrightarrow> semIRegex k = None \<and> semIIRegex k = None"
proof (cases "semIRegex k")
  case None
  show ?thesis
  proof (cases "semIIRegex k")
    case None
    with \<open>semIRegex k = None\<close> show ?thesis by (simp add: getAcademicYear_def)
  next
    case (Some y)
    with \<open>semIRegex k = None\<close> getAcademicYear_SemII_year[OF Some] intToString_not_Unknown
    show ?thesis by (simp add: getAcademicYear_def)
  qed
next
  case (Some y)
  then have "length y \<le> 4" unfolding semIRegex_def by (auto dest: semRegex_capture)
  then have "y \<noteq> ''Unknown''" by auto
  with Some show ?thesis by (simp add: getAcademicYear_def)
qed

text \<open>The years the table builder visits.\<close>

lemma set_map_filter: "set (List.map_filter f xs) = {y. \<exists>x\<in>set xs. f x = Some y}"
  by (induction xs) (auto simp: List.map_filter_simps split: option.splits)

lemma mset_map_filter:
  "mset (List.map_filter f xs) = image_mset (the \<circ> f) (filter_mset (\<lambda>x. f x \<noteq> None) (mset xs))"
  by (simp add: List.map_filter_def)

lemma sortedYears_split:
  "\<exists>ns ls. sortedYears ay = map intToString ns @ ls \<and> sorted ns \<and>
     mset ns = mset (List.map_filter parseInt10 (filter (\<lambda>y. y \<noteq> ''Unknown'') (map fst ay))) \<and>
     ls = filter (\<lambda>y. y \<noteq> ''Unknown'' \<and> parseInt10 y = None) (map fst ay)"
proof -
  define ks where "ks = filter (\<lambda>y. y \<noteq> ''Unknown'') (objKeys ay)"
  define ns where "ns = sort (List.map_filter parseInt10 ks)"
  define ls where "ls = filter (\<lambda>y. parseInt10 y = None) ks"
  have s: "sortedYears ay = map intToString ns @ ls"
    by (simp add: sortedYears_def Let_def ks_def ns_def ls_def)
  have mk: "mset ks = mset (filter (\<lambda>y. y \<noteq> ''Unknown'') (map fst ay))"
    by (simp add: ks_def mset_objKeys)
  have "mset (List.map_filter parseInt10 ks) =
             mset (List.map_filter parseInt10 (filter (\<lambda>y. y \<noteq> ''Unknown'') (map fst ay)))"
    unfolding mset_map_filter mk ..
  then have m: "mset ns = mset (List.map_filter parseInt10 (filter (\<lambda>y. y \<noteq> ''Unknown'') (map fst ay)))"
    by (simp add: ns_def)
  have "ls = filter (\<lambda>y. y \<noteq> ''Unknown'' \<and> parseInt10 y = None) (objKeys ay)"
    by (auto simp: ls_def ks_def intro: filter_cong)
  also have "\<dots> = filter (\<lambda>y. y \<noteq> ''Unknown'' \<and> parseInt10 y = None) (map fst ay)"
    by (rule filter_objKeys) (auto dest: isArrayIndex_parseInt10)
  finally have l: "ls = filter (\<lambda>y. y \<noteq> ''Unknown'' \<and> parseInt10 y = None) (map fst ay)" .
  have "sorted ns" by (simp add: ns_def)
  with s m l show ?thesis by blast
qed

lemma Unknown_not_in_sortedYears: "''Unknown'' \<notin> set (sortedYears ay)"
proof -
  have "''Unknown'' \<notin> set (map intToString ns)" for ns
    by (induction ns) (simp_all add: intToString_not_Unknown[symmetric])
  then show ?thesis by (simp add: sortedYears_def Let_def)
qed


lemma map_filter_canonical:
  "(\<forall>y\<in>set ks. \<forall>n. parseInt10 y = Some n \<longrightarrow> intToString n = y) \<Longrightarrow>
     map intToString (List.map_filter parseInt10 ks) = filter (\<lambda>y. parseInt10 y \<noteq> None) ks"
proof (induction ks)
  case Nil
  show ?case by (simp add: List.map_filter_simps)
next
  case (Cons k ks)
  then have IH: "map intToString (List.map_filter parseInt10 ks) = filter (\<lambda>y. parseInt10 y \<noteq> None) ks"
    by simp
  show ?case
  proof (cases "parseInt10 k")
    case None
    with IH show ?thesis by (simp add: List.map_filter_simps)
  next
    case (Some n)
    with Cons.prems have "intToString n = k" by simp
    with Some IH show ?thesis by (simp add: List.map_filter_simps)
  qed
qed

lemma mset_filter_split: "mset (filter P xs) + mset (filter (\<lambda>x. \<not> P x) xs) = mset xs"
  by (induction xs) simp_all

lemma sortedYears_canonical_perm:
  assumes "\<forall>y\<in>fst ` set ay. \<forall>n. parseInt10 y = Some n \<longrightarrow> intToString n = y"
  shows "mset (sortedYears ay) = mset (filter (\<lambda>y. y \<noteq> ''Unknown'') (map fst ay))"
proof -
  define ks where "ks = filter (\<lambda>y. y \<noteq> ''Unknown'') (objKeys ay)"
  have "\<forall>y\<in>set ks. \<forall>n. parseInt10 y = Some n \<longrightarrow> intToString n = y"
    using assms by (auto simp: ks_def set_objKeys)
  then have 1: "map intToString (List.map_filter parseInt10 ks) = filter (\<lambda>y. parseInt10 y \<noteq> None) ks"
    by (rule map_filter_canonical)
  have 2: "mset (map intToString (sort (List.map_filter parseInt10 ks))) =
             mset (map intToString (List.map_filter parseInt10 ks))"
    by simp
  have 3: "sortedYears ay = map intToString (sort (List.map_filter parseInt10 ks)) @ filter (\<lambda>y. parseInt10 y = None) ks"
    by (simp add: sortedYears_def Let_def ks_def)
  have "mset (sortedYears ay) = mset (filter (\<lambda>y. parseInt10 y \<noteq> None) ks) + mset (filter (\<lambda>y. \<not> parseInt10 y \<noteq> None) ks)"
    unfolding 3 mset_append 2 1 by simp
  also have "\<dots> = mset ks" by (rule mset_filter_split)
  also have "\<dots> = mset (filter (\<lambda>y. y \<noteq> ''Unknown'') (map fst ay))"
    by (simp add: ks_def mset_objKeys)
  finally show ?thesis .
qed

lemma map_filter_map_inverse:
  "(\<forall>n\<in>set ns. f (g n) = Some n) \<Longrightarrow> List.map_filter f (map g ns) = ns"
  by (induction ns) (simp_all add: List.map_filter_simps)

text \<open>
  When no numeric year key has a leading zero, the numeric keys themselves are visited,
  in ascending order of their values, and the other keys after them.
\<close>

lemma sortedYears_canonical:
  assumes "list_all canonicalYear (map fst ay)"
  shows "\<exists>nums. sortedYears ay =
             nums @ filter (\<lambda>y. y \<noteq> ''Unknown'' \<and> parseInt10 y = None) (map fst ay) \<and>
           mset nums = mset (filter (\<lambda>y. y \<noteq> ''Unknown'' \<and> parseInt10 y \<noteq> None) (map fst ay)) \<and>
           sorted (List.map_filter parseInt10 nums)"
proof -
  define ks where "ks = filter (\<lambda>y. y \<noteq> ''Unknown'') (map fst ay)"
  from sortedYears_split[of ay] obtain ns where
    s: "sortedYears ay =
          map intToString ns @ filter (\<lambda>y. y \<noteq> ''Unknown'' \<and> parseInt10 y = None) (map fst ay)" and
    so: "sorted ns" and m: "mset ns = mset (List.map_filter parseInt10 ks)"
    unfolding ks_def by blast
  have can: "\<forall>y\<in>set ks. \<forall>n. parseInt10 y = Some n \<longrightarrow> intToString n = y"
    using assms by (auto simp: ks_def list_all_iff canonicalYear_def)
  have "mset (map intToString ns) = image_mset intToString (mset ns)" by simp
  also have "\<dots> = mset (map intToString (List.map_filter parseInt10 ks))" by (simp add: m)
  also have "\<dots> = mset (filter (\<lambda>y. parseInt10 y \<noteq> None) ks)"
    by (simp add: map_filter_canonical[OF can])
  also have "\<dots> = mset (filter (\<lambda>y. y \<noteq> ''Unknown'' \<and> parseInt10 y \<noteq> None) (map fst ay))"
    by (simp add: ks_def)
  finally have 1: "mset (map intToString ns) =
      mset (filter (\<lambda>y. y \<noteq> ''Unknown'' \<and> parseInt10 y \<noteq> None) (map fst ay))" .
  have "set ns = set (List.map_filter parseInt10 ks)" using m by (rule mset_eq_setD)
  then have "\<forall>n\<in>set ns. parseInt10 (intToString n) = Some n"
    using can unfolding set_map_filter by force
  then have "List.map_filter parseInt10 (map intToString ns) = ns"
    by (rule map_filter_map_inverse)
  with so have 2: "sorted (List.map_filter parseInt10 (map intToString ns))" by simp
  from s 1 2 show ?thesis by blast
qed

section \<open>Facts about the rows of a year\<close>

lemma shifted_in: "shifted ks \<in> insert None (Some ` set ks)"
  by (auto simp: shifted_def split: list.splits)

lemma key_slot_mono:
  "lk \<in> insert None (Some ` L) \<Longrightarrow> L \<subseteq> L' \<Longrightarrow> lk \<in> insert None (Some ` L')"
  by auto

lemma shown_keys_mono:
  assumes "row = blankRow \<or>
         (\<exists>lk lc rk rc. row = pairedRow lk lc rk rc \<and>
            lk \<in> insert None (Some ` L) \<and> rk \<in> insert None (Some ` R))"
    and "L \<subseteq> L'" "R \<subseteq> R'"
  shows "row = blankRow \<or>
         (\<exists>lk lc rk rc. row = pairedRow lk lc rk rc \<and>
            lk \<in> insert None (Some ` L') \<and> rk \<in> insert None (Some ` R'))"
  using assms(1)
proof
  assume "row = blankRow"
  then show ?thesis by (rule disjI1)
next
  assume "\<exists>lk lc rk rc. row = pairedRow lk lc rk rc \<and>
            lk \<in> insert None (Some ` L) \<and> rk \<in> insert None (Some ` R)"
  then obtain lk lc rk rc where
    r: "row = pairedRow lk lc rk rc" and
    l: "lk \<in> insert None (Some ` L)" and k: "rk \<in> insert None (Some ` R)"
    by (elim exE conjE)
  from key_slot_mono[OF l assms(2)] key_slot_mono[OF k assms(3)] r
  have "row = pairedRow lk lc rk rc \<and>
            lk \<in> insert None (Some ` L') \<and> rk \<in> insert None (Some ` R')"
    by (intro conjI)
  then show ?thesis by (intro disjI2 exI)
qed

lemma pairRows_keys:
  assumes "pairRows so ls rs = Inr rows" "row \<in> set rows"
  shows "row = blankRow \<or>
         (\<exists>lk lc rk rc. row = pairedRow lk lc rk rc \<and>
            lk \<in> insert None (Some ` set ls) \<and> rk \<in> insert None (Some ` set rs))"
  using assms
proof (induction so ls rs arbitrary: rows rule: pairRows.induct)
  case (1 so ls rs)
  show ?case
  proof (cases "ls = [] \<and> rs = []")
    case True
    with "1.prems" show ?thesis by (simp add: pairRows.simps)
  next
    case False
    with "1.prems"(1) obtain lc rc rest where
      lc: "coursesFor so (shifted ls) = Inr lc" and
      rc: "coursesFor so (shifted rs) = Inr rc" and
      rest: "pairRows so (drop 1 ls) (drop 1 rs) = Inr rest" and
      rows: "rows = pairedRow (shifted ls) lc (shifted rs) rc # blankRow # rest"
      by (subst (asm) pairRows.simps) (auto simp: Let_def split: sum.splits)
    from "1.prems"(2) rows consider "row = pairedRow (shifted ls) lc (shifted rs) rc"
      | "row = blankRow" | "row \<in> set rest" by auto
    then show ?thesis
    proof cases
      case 1
      with shifted_in[of ls] shifted_in[of rs]
      have "row = pairedRow (shifted ls) lc (shifted rs) rc \<and>
            shifted ls \<in> insert None (Some ` set ls) \<and> shifted rs \<in> insert None (Some ` set rs)"
        by (intro conjI)
      then show ?thesis by (intro disjI2 exI)
    next
      case 2
      then show ?thesis by (rule disjI1)
    next
      case 3
      from "1.IH"[OF False refl refl lc rc rest 3]
      show ?thesis
        by (rule shown_keys_mono) (rule set_drop_subset)+
    qed
  qed
qed

lemma yearRows_keys:
  assumes "yearRows ay ys = Inr rows" "row \<in> set rows"
  shows "row = blankRow \<or>
         (\<exists>lk lc rk rc. row = pairedRow lk lc rk rc \<and>
            lk \<in> insert None (Some ` {k. semIRegex k \<noteq> None}) \<and>
            rk \<in> insert None (Some ` {k. semIIRegex k \<noteq> None}))"
  using assms
proof (induction ys arbitrary: rows)
  case Nil
  then show ?case by simp
next
  case (Cons y ys)
  from Cons.prems(1) obtain r1 r2 where
    y: "oneYearRows ay y = Inr r1" and
    r2: "yearRows ay ys = Inr r2" and rows: "rows = r1 @ r2"
    by (auto split: sum.splits)
  from y obtain so where
    r1: "pairRows so (filter (\<lambda>s. semIRegex s \<noteq> None) (objKeys so))
                 (filter (\<lambda>s. semIIRegex s \<noteq> None) (objKeys so)) = Inr r1"
    by (auto simp: oneYearRows_def Let_def split: option.splits)
  from Cons.prems(2) rows consider "row \<in> set r1" | "row \<in> set r2" by auto
  then show ?case
  proof cases
    case 1
    from pairRows_keys[OF r1 1] show ?thesis
      by (rule shown_keys_mono) auto
  next
    case 2
    from Cons.IH[OF r2 2] show ?thesis .
  qed
qed

lemma yearRows_blocks:
  "yearRows ay ys = Inr rows \<Longrightarrow>
     \<exists>blocks. map (oneYearRows ay) ys = map Inr blocks \<and> rows = concat blocks"
proof (induction ys arbitrary: rows)
  case Nil
  then show ?case by simp
next
  case (Cons y ys)
  from Cons.prems obtain r1 r2 where
    y: "oneYearRows ay y = Inr r1" and
    r2: "yearRows ay ys = Inr r2" and rows: "rows = r1 @ r2"
    by (auto split: sum.splits)
  from Cons.IH[OF r2] obtain blocks where
    "map (oneYearRows ay) ys = map Inr blocks" "r2 = concat blocks" by blast
  with y rows show ?case by (intro exI[of _ "r1 # blocks"]) simp
qed














lemma Unknown_label_not_shown:
  assumes "tableRows g = Inr rows" "year (getAcademicYear k) = ''Unknown''" "k \<noteq> []"
  shows "list_all (\<lambda>row. row ! 0 \<noteq> [k] \<and> row ! 5 \<noteq> [k]) (tl rows)"
proof -
  from assms(1) obtain body where
    body: "yearRows (buildAcademicYears g) (sortedYears (buildAcademicYears g)) = Inr body"
    and rows: "rows = headerRow # body"
    by (auto simp: tableRows_def Let_def split: sum.splits)
  from assms(2) have no: "semIRegex k = None" "semIIRegex k = None"
    by (simp_all add: year_Unknown_iff)
  have "row ! 0 \<noteq> [k] \<and> row ! 5 \<noteq> [k]" if "row \<in> set body" for row
  proof -
    from yearRows_keys[OF body that] show ?thesis
    proof
      assume "row = blankRow"
      with assms(3) show ?thesis by (auto simp: blankRow_def)
    next
      assume "\<exists>lk lc rk rc. row = pairedRow lk lc rk rc \<and>
            lk \<in> insert None (Some ` {k. semIRegex k \<noteq> None}) \<and>
            rk \<in> insert None (Some ` {k. semIIRegex k \<noteq> None})"
      then obtain lk lc rk rc where
        r: "row = pairedRow lk lc rk rc" and
        l: "lk \<in> insert None (Some ` {k. semIRegex k \<noteq> None})" and
        k: "rk \<in> insert None (Some ` {k. semIIRegex k \<noteq> None})"
        by (elim exE conjE)
      from l no(1) assms(3) have "keyCell lk \<noteq> [k]" by (auto simp: keyCell_def)
      moreover from k no(2) assms(3) have "keyCell rk \<noteq> [k]" by (auto simp: keyCell_def)
      ultimately show ?thesis using r by (simp add: pairedRow_def)
    qed
  qed
  with rows show ?thesis by (simp add: list_all_iff)
qed





section \<open>C3: the order of the years and the Unknown year\<close>

text \<open>
  C3 says that the year keys that parse as integers come first, sorted ascending, that
  the other keys except \<open>"Unknown"\<close> follow in the order they were met, and that the
  \<open>"Unknown"\<close> year is kept and appended afterwards, so that its buckets still appear
  in the table. The code filters \<open>"Unknown"\<close> out of the year keys and never comes
  back to it: a course without a session value is grouped under \<open>"NoSession"\<close>,
  classified \<open>"Unknown"\<close>, and the table has the header row only.
\<close>

theorem Unknown_bucket_not_emitted_counterexample:
  "groupAll [\<lparr>Course = ''Greek'', CatNo = ''102'', Grade = JStr ''B'', SemHrs = JNum 3, rawSem = JStr [], Sem = []\<rparr>]
     = Inr [(''NoSession'', [\<lparr>Course = ''Greek'', CatNo = ''102'', Grade = JStr ''B'', SemHrs = JNum 3\<rparr>])] \<and>
   getAcademicYear ''NoSession'' = \<lparr>year = ''Unknown'', matched = None\<rparr> \<and>
   buildAcademicYears [(''NoSession'', [\<lparr>Course = ''Greek'', CatNo = ''102'', Grade = JStr ''B'', SemHrs = JNum 3\<rparr>])]
     = [(''Unknown'', [(''NoSession'', [\<lparr>Course = ''Greek'', CatNo = ''102'', Grade = JStr ''B'', SemHrs = JNum 3\<rparr>])])] \<and>
   sortedYears [(''Unknown'', [(''NoSession'', [\<lparr>Course = ''Greek'', CatNo = ''102'', Grade = JStr ''B'', SemHrs = JNum 3\<rparr>])])] = [] \<and>
   tableRows [(''NoSession'', [\<lparr>Course = ''Greek'', CatNo = ''102'', Grade = JStr ''B'', SemHrs = JNum 3\<rparr>])]
     = Inr [headerRow]"
  by code_simp

text \<open>
  C3, amended, for year keys whose numeric members have no leading zero: the table is
  the header followed by the rows of each visited year, in the order the years are
  visited. The numeric year keys are visited first, in ascending order of their values,
  then the non-numeric keys other than \<open>"Unknown"\<close> in the order they were created.
  The \<open>"Unknown"\<close> year is never visited, and a label classified \<open>"Unknown"\<close> is
  shown in no row after the header.
\<close>

theorem years_sorted_Unknown_dropped:
  "(list_all canonicalYear (map fst ay) \<longrightarrow>
      (\<exists>nums. sortedYears ay =
                nums @ filter (\<lambda>y. y \<noteq> ''Unknown'' \<and> parseInt10 y = None) (map fst ay) \<and>
         mset nums = mset (filter (\<lambda>y. y \<noteq> ''Unknown'' \<and> parseInt10 y \<noteq> None) (map fst ay)) \<and>
         sorted (List.map_filter parseInt10 nums))) \<and>
   ''Unknown'' \<notin> set (sortedYears ay) \<and>
   (list_all canonicalYear (map fst (buildAcademicYears g)) \<and> tableRows g = Inr rows \<longrightarrow>
      (\<exists>blocks. rows = headerRow # concat blocks \<and>
         map (oneYearRows (buildAcademicYears g)) (sortedYears (buildAcademicYears g)) = map Inr blocks)) \<and>
   (tableRows g = Inr rows \<and> year (getAcademicYear k) = ''Unknown'' \<and> k \<noteq> [] \<longrightarrow>
      list_all (\<lambda>row. row ! 0 \<noteq> [k] \<and> row ! 5 \<noteq> [k]) (tl rows))"
proof (intro conjI impI)
  assume "list_all canonicalYear (map fst ay)"
  then show "\<exists>nums. sortedYears ay =
                nums @ filter (\<lambda>y. y \<noteq> ''Unknown'' \<and> parseInt10 y = None) (map fst ay) \<and>
         mset nums = mset (filter (\<lambda>y. y \<noteq> ''Unknown'' \<and> parseInt10 y \<noteq> None) (map fst ay)) \<and>
         sorted (List.map_filter parseInt10 nums)"
    by (rule sortedYears_canonical)
next
  show "''Unknown'' \<notin> set (sortedYears ay)" by (rule Unknown_not_in_sortedYears)
next
  assume "list_all canonicalYear (map fst (buildAcademicYears g)) \<and> tableRows g = Inr rows"
  then have "tableRows g = Inr rows" ..
  then obtain body where
    "yearRows (buildAcademicYears g) (sortedYears (buildAcademicYears g)) = Inr body"
    "rows = headerRow # body"
    by (auto simp: tableRows_def Let_def split: sum.splits)
  with yearRows_blocks[OF this(1)]
  show "\<exists>blocks. rows = headerRow # concat blocks \<and>
         map (oneYearRows (buildAcademicYears g)) (sortedYears (buildAcademicYears g)) = map Inr blocks"
    by blast
next
  assume "tableRows g = Inr rows \<and> year (getAcademicYear k) = ''Unknown'' \<and> k \<noteq> []"
  then show "list_all (\<lambda>row. row ! 0 \<noteq> [k] \<and> row ! 5 \<noteq> [k]) (tl rows)"
    by (intro Unknown_label_not_shown) auto
qed

theorem years_sorted_Unknown_dropped_witness:
  "list_all canonicalYear (map fst [(''18'', [(''Aug-18 Sem I'', []::course list)]), (''Unknown'', [(''NoSession'', [])]),
                (''n/a'', []), (''17'', [(''Jan-18 Sem II'', [])])]) \<and>
   sortedYears [(''18'', [(''Aug-18 Sem I'', []::course list)]), (''Unknown'', [(''NoSession'', [])]),
                (''n/a'', []), (''17'', [(''Jan-18 Sem II'', [])])] = [''17'', ''18''] @ [''n/a''] \<and>
   mset [''17'', ''18''] = mset [''18'', ''17''] \<and>
   sorted (List.map_filter parseInt10 [''17'', ''18'']) \<and>
   list_all canonicalYear
     (map fst (buildAcademicYears [(''Aug-18 Sem I'', []), (''NoSession'', []), (''Jan-18 Sem II'', [])])) \<and>
   tableRows [(''Aug-18 Sem I'', []), (''NoSession'', []), (''Jan-18 Sem II'', [])]
     = Inr [headerRow,
            [[[]], [], [], [], [], [''Jan-18 Sem II''], [], [], [], []], blankRow,
            [[''Aug-18 Sem I''], [], [], [], [], [[]], [], [], [], []], blankRow] \<and>
   year (getAcademicYear ''NoSession'') = ''Unknown'' \<and>
   list_all (\<lambda>row. row ! 0 \<noteq> [''NoSession''] \<and> row ! 5 \<noteq> [''NoSession''])
     [[[[]], [], [], [], [], [''Jan-18 Sem II''], [], [], [], []], blankRow,
      [[''Aug-18 Sem I''], [], [], [], [], [[]], [], [], [], []], blankRow]"
proof -
  let ?ay = "[(''18'', [(''Aug-18 Sem I'', []::course list)]), (''Unknown'', [(''NoSession'', [])]),
                (''n/a'', []), (''17'', [(''Jan-18 Sem II'', [])])]"
  let ?g = "[(''Aug-18 Sem I'', []::course list), (''NoSession'', []), (''Jan-18 Sem II'', [])]"
  let ?rows = "[headerRow,
            [[[]], [], [], [], [], [''Jan-18 Sem II''], [], [], [], []], blankRow,
            [[''Aug-18 Sem I''], [], [], [], [], [[]], [], [], [], []], blankRow]"
  note T = years_sorted_Unknown_dropped[of ?ay ?g ?rows "''NoSession''"]
  have 1: "sortedYears ?ay = [''17'', ''18''] @ [''n/a'']" by code_simp
  have 2: "list_all canonicalYear (map fst ?ay)" by code_simp
  have 3: "filter (\<lambda>y. y \<noteq> ''Unknown'' \<and> parseInt10 y = None) (map fst ?ay) = [''n/a'']" by code_simp
  have numeric: "filter (\<lambda>y. y \<noteq> ''Unknown'' \<and> parseInt10 y \<noteq> None) (map fst ?ay) = [''18'', ''17'']"
    by code_simp
  have 4: "tableRows ?g = Inr ?rows" by code_simp
  have 5: "year (getAcademicYear ''NoSession'') = ''Unknown''" by code_simp
  have 8: "list_all canonicalYear (map fst (buildAcademicYears ?g))" by code_simp
  from T 2 obtain nums where
    n: "sortedYears ?ay = nums @ filter (\<lambda>y. y \<noteq> ''Unknown'' \<and> parseInt10 y = None) (map fst ?ay)"
       "mset nums = mset (filter (\<lambda>y. y \<noteq> ''Unknown'' \<and> parseInt10 y \<noteq> None) (map fst ?ay))"
       "sorted (List.map_filter parseInt10 nums)"
    by blast
  from n(1) have "nums @ [''n/a''] = [''17'', ''18''] @ [''n/a'']" unfolding 1 3 by simp
  then have nums: "nums = [''17'', ''18'']" by (simp only: append_same_eq)
  from n(2) have 6: "mset [''17'', ''18''] = mset [''18'', ''17'']" unfolding nums numeric .
  from n(3) have 9: "sorted (List.map_filter parseInt10 [''17'', ''18''])" unfolding nums .
  from T 4 5 have "list_all (\<lambda>row. row ! 0 \<noteq> [''NoSession''] \<and> row ! 5 \<noteq> [''NoSession'']) (tl ?rows)"
    by blast
  then have 7: "list_all (\<lambda>row. row ! 0 \<noteq> [''NoSession''] \<and> row ! 5 \<noteq> [''NoSession''])
     [[[[]], [], [], [], [], [''Jan-18 Sem II''], [], [], [], []], blankRow,
      [[''Aug-18 Sem I''], [], [], [], [], [[]], [], [], [], []], blankRow]"
    by (simp only: list.sel)
  from 2 1 6 9 8 4 5 7 show ?thesis by (intro conjI)
qed

section \<open>C10: a session with footer rows only\<close>




end
